theory Spec2Isabelle
  imports Main "HOL-Library.Sublist"
begin

section \<open>Go values: errors, panics, outcomes\<close>

text \<open>
  A Go \<^verbatim>\<open>error\<close> value. \<open>ClientError m\<close> is an error handed back by an external
  client (S3, gzip, scanner, Loki batch) whose \<^verbatim>\<open>Error()\<close> text is \<open>m\<close>;
  \<open>FieldCountMismatch expected got\<close> is the error built in \<^verbatim>\<open>parseDataLine\<close>;
  \<open>Wrap p e\<close> is \<^verbatim>\<open>fmt.Errorf(p + "%w", e)\<close>.
\<close>

datatype error =
    ClientError string
  | FieldCountMismatch nat nat
  | Wrap string error

text \<open>The run-time panics the modelled statements can raise.\<close>

datatype panic =
    IndexOutOfRange nat nat
  | SliceBoundsOutOfRange nat nat
  | CloseOfClosedChannel
  | SendOnClosedChannel
  | MakechanSizeOutOfRange

text \<open>
  How a call ends: it returns a value, it panics, or (channel operations in a
  sequential run) it blocks for ever because no other goroutine is there to wake it.
\<close>

datatype 'a outcome = Returned 'a | Panicked panic | Blocked

section \<open>The string functions of the Go library that the parser calls\<close>

text \<open>\<^verbatim>\<open>strings.HasPrefix(s, p)\<close>.\<close>

definition HasPrefix :: "string \<Rightarrow> string \<Rightarrow> bool" where
  "HasPrefix s p = prefix p s"

text \<open>\<^verbatim>\<open>strings.Contains(s, sub)\<close>: \<open>sub\<close> occurs somewhere in \<open>s\<close>.\<close>

fun Contains :: "string \<Rightarrow> string \<Rightarrow> bool" where
  "Contains [] sub = (sub = [])"
| "Contains (c # cs) sub = (prefix sub (c # cs) \<or> Contains cs sub)"

text \<open>
  \<^verbatim>\<open>strings.Split(s, sep)\<close> for a one-byte separator (the parser only splits at
  \<^verbatim>\<open>"/"\<close>): \<open>n\<close> separators give \<open>n + 1\<close> pieces, so the result is never empty.
  \<open>acc\<close> holds the bytes of the piece being read, last byte first.
\<close>

fun Split_acc :: "char \<Rightarrow> string \<Rightarrow> string \<Rightarrow> string list" where
  "Split_acc sep acc [] = [rev acc]"
| "Split_acc sep acc (c # cs) =
     (if c = sep then rev acc # Split_acc sep [] cs else Split_acc sep (c # acc) cs)"

definition Split :: "string \<Rightarrow> char \<Rightarrow> string list" where
  "Split s sep = Split_acc sep [] s"

text \<open>
  White space as \<^verbatim>\<open>strings.Fields\<close> sees it. A Go string is a byte sequence read
  as UTF-8; \<^verbatim>\<open>unicode.IsSpace\<close> holds for the ASCII bytes
  \<^verbatim>\<open>\t \n \v \f \r\<close> and space, and for U+0085, U+00A0, U+1680, U+2000 to U+200A, U+2028,
  U+2029, U+202F, U+205F and U+3000. Every one of the latter is a well-formed UTF-8
  sequence whose first byte is no continuation byte, so the decoder stands at a rune
  boundary wherever such a sequence starts, and matching the bytes is the same as
  decoding. \<open>space_width s\<close> is the number of bytes of the white-space rune that starts
  \<open>s\<close>, and 0 when \<open>s\<close> starts with none.
\<close>

definition asciiSpace :: "char \<Rightarrow> bool" where
  "asciiSpace c = (c = CHR 0x09 \<or> c = CHR 0x0A \<or> c = CHR 0x0B \<or> c = CHR 0x0C
     \<or> c = CHR 0x0D \<or> c = CHR 0x20)"

definition cont_in :: "char \<Rightarrow> nat \<Rightarrow> nat \<Rightarrow> bool" where
  "cont_in c lo hi = (lo \<le> (of_char c :: nat) \<and> (of_char c :: nat) \<le> hi)"

fun space_width :: "string \<Rightarrow> nat" where
  "space_width [] = 0"
| "space_width (c # cs) =
     (if asciiSpace c then 1
      else if c = CHR 0xC2 then
        (case cs of
           d # _ \<Rightarrow> if d = CHR 0x85 \<or> d = CHR 0xA0 then 2 else 0
         | [] \<Rightarrow> 0)
      else if c = CHR 0xE1 then
        (case cs of
           d # e # _ \<Rightarrow> if d = CHR 0x9A \<and> e = CHR 0x80 then 3 else 0
         | _ \<Rightarrow> 0)
      else if c = CHR 0xE2 then
        (case cs of
           d # e # _ \<Rightarrow>
             if d = CHR 0x80 \<and> (cont_in e 0x80 0x8A \<or> e = CHR 0xA8 \<or> e = CHR 0xA9
                  \<or> e = CHR 0xAF) then 3
             else if d = CHR 0x81 \<and> e = CHR 0x9F then 3
             else 0
         | _ \<Rightarrow> 0)
      else if c = CHR 0xE3 then
        (case cs of
           d # e # _ \<Rightarrow> if d = CHR 0x80 \<and> e = CHR 0x80 then 3 else 0
         | _ \<Rightarrow> 0)
      else 0)"

text \<open>
  \<^verbatim>\<open>strings.Fields(s)\<close>: the maximal runs of bytes between white space, in order;
  no empty field. \<open>cur\<close> is the field being read (last byte first), \<open>skip\<close> the
  bytes of a white-space rune still to pass over.
\<close>

fun Fields_scan :: "string \<Rightarrow> nat \<Rightarrow> string \<Rightarrow> string list" where
  "Fields_scan cur skip [] = (if cur = [] then [] else [rev cur])"
| "Fields_scan cur (Suc k) (c # cs) = Fields_scan cur k cs"
| "Fields_scan cur 0 (c # cs) =
     (case space_width (c # cs) of
        0 \<Rightarrow> Fields_scan (c # cur) 0 cs
      | Suc k \<Rightarrow> (if cur = [] then [] else [rev cur]) @ Fields_scan [] k cs)"

definition Fields :: "string \<Rightarrow> string list" where
  "Fields s = Fields_scan [] 0 s"

text \<open>\<^verbatim>\<open>xs[i]\<close> and \<^verbatim>\<open>xs[i:]\<close> with the run-time bounds check of Go.\<close>

definition index_at :: "'a list \<Rightarrow> nat \<Rightarrow> panic + 'a" where
  "index_at xs i = (if i < length xs then Inr (xs ! i) else Inl (IndexOutOfRange i (length xs)))"

definition slice_from :: "'a list \<Rightarrow> nat \<Rightarrow> panic + 'a list" where
  "slice_from xs i =
     (if i \<le> length xs then Inr (drop i xs) else Inl (SliceBoundsOutOfRange i (length xs)))"

text \<open>\<^verbatim>\<open>%d\<close> of a non-negative integer.\<close>

fun decimal :: "nat \<Rightarrow> string" where
  "decimal n =
     (if n < 10 then [''0123456789'' ! n]
      else decimal (n div 10) @ [''0123456789'' ! (n mod 10)])"

section \<open>Data model\<close>

text \<open>\<^verbatim>\<open>models.LogEntry\<close>, a \<^verbatim>\<open>map[string]string\<close>, and a label set.\<close>

type_synonym LogEntry = "string \<rightharpoonup> string"
type_synonym labels = "string \<rightharpoonup> string"

text \<open>\<^verbatim>\<open>models.Options\<close>; \<^verbatim>\<open>time.Duration\<close> is an integer of nanoseconds.\<close>

record Options =
  BucketName :: string
  WaitInterval :: int
  Format :: string
  LokiURL :: string
  LokiUser :: string
  LokiPassword :: string
  ClusterName :: string
  Labels :: labels
  Workers :: int
  Port :: int

text \<open>
  The buffered channel \<^verbatim>\<open>queue chan *string\<close>: the keys waiting in its buffer
  (oldest first), its capacity, and whether it has been closed. Only non-nil pointers
  are ever sent, so an element is the string pointed to.
\<close>

record chan =
  buf :: "string list"
  cap :: nat
  chan_closed :: bool

text \<open>
  \<^verbatim>\<open>Parser\<close>. The S3 client and the logger are the outside world: their calls are
  recorded in a trace and answered by an environment (below).
\<close>

record Parser =
  opts :: Options
  queue :: chan
  stop :: bool

text \<open>An entry of \<^verbatim>\<open>ListObjectsV2Output.Contents\<close>; \<open>None\<close> is a nil \<^verbatim>\<open>Key\<close>.\<close>

record s3object =
  Key :: "string option"

section \<open>The outside world\<close>

text \<open>
  What \<^verbatim>\<open>GetObject\<close> hands back when it succeeds, as the parser reads it: either
  \<^verbatim>\<open>gzip.NewReader\<close> refuses the body, or \<^verbatim>\<open>bufio.Scanner\<close> over the gzip
  reader yields the lines \<open>ls\<close> one by one and then stops with \<^verbatim>\<open>scanner.Err()\<close>
  equal to \<open>e\<close> (a read or checksum error, or a line longer than the scanner's buffer).
\<close>

datatype body = BadGzip error | Lines "string list" "error option"

text \<open>
  Every call the parser makes to a collaborator, in the order made. The batch receives
  the compact JSON of the entry (\<^verbatim>\<open>json.Marshal\<close> of a \<^verbatim>\<open>map[string]string\<close>
  never fails, so the \<^verbatim>\<open>log.Fatalf\<close> branch is dead); the call records the entry
  itself. The time stamp given to \<^verbatim>\<open>Add\<close> is the wall clock and is left out.
\<close>

datatype call =
    ListObjectsV2 string nat
  | GetObject string string
  | DeleteObject string string
  | NewBatch labels
  | BatchAdd LogEntry
  | BatchFlush
  | LoggerError string string error
  | LoggerInfo string nat nat
  | LoggerDebug string string
  | Printf string

text \<open>
  The environment answers a call from the whole history of calls, the one being
  answered last. This is the most general deterministic collaborator; a statement
  proved for every environment holds whatever S3 and Loki do.
\<close>

record env =
  list_reply :: "call list \<Rightarrow> error + s3object list"
  get_reply :: "call list \<Rightarrow> error + body"
  delete_reply :: "call list \<Rightarrow> error option"
  add_reply :: "call list \<Rightarrow> error option"
  flush_reply :: "call list \<Rightarrow> error option"

text \<open>\<^verbatim>\<open>err.Error()\<close>.\<close>

fun Error_text :: "error \<Rightarrow> string" where
  "Error_text (ClientError m) = m"
| "Error_text (FieldCountMismatch expected got) =
     ''field count mismatch: expected '' @ decimal expected @ '', got '' @ decimal got"
| "Error_text (Wrap p e) = p @ Error_text e"

section \<open>parseDataLine\<close>

text \<open>
  The loop \<^verbatim>\<open>for i, name := range headerFields { entry[name] = fields[i] }\<close>,
  started at index \<open>i\<close> with the names still to visit (\<open>flds\<close> is \<^verbatim>\<open>fields\<close>).
\<close>

fun entry_loop :: "nat \<Rightarrow> string list \<Rightarrow> string list \<Rightarrow> LogEntry \<Rightarrow> panic + LogEntry" where
  "entry_loop i [] flds entry = Inr entry"
| "entry_loop i (name # names) flds entry =
     (case index_at flds i of
        Inl p \<Rightarrow> Inl p
      | Inr v \<Rightarrow> entry_loop (Suc i) names flds (entry(name \<mapsto> v)))"

definition parseDataLine :: "string \<Rightarrow> string list \<Rightarrow> (error + LogEntry) outcome" where
  "parseDataLine line headerFields =
     (let flds = Fields line in
      if length flds \<noteq> length headerFields
      then Returned (Inl (FieldCountMismatch (length headerFields) (length flds)))
      else (case entry_loop 0 headerFields flds Map.empty of
              Inl p \<Rightarrow> Panicked p
            | Inr entry \<Rightarrow> Returned (Inr entry)))"

section \<open>NewParser, Stop, Metrics\<close>

text \<open>
  Go's \<^verbatim>\<open>int\<close> has 64 bits on the platforms the service is built for: the result
  of an arithmetic operation wraps around to the signed 64-bit range.
\<close>

definition int64 :: "int \<Rightarrow> int" where
  "int64 x = (x + 2 ^ 63) mod 2 ^ 64 - 2 ^ 63"

text \<open>
  \<^verbatim>\<open>make(chan *string, n)\<close>: a negative size panics, and so does a size above
  the largest buffer the runtime grants. That bound depends on the platform and is the
  parameter \<open>limit\<close>.
\<close>

definition make_chan :: "nat \<Rightarrow> int \<Rightarrow> panic + chan" where
  "make_chan limit n =
     (if n < 0 \<or> int limit < n then Inl MakechanSizeOutOfRange
      else Inr \<lparr>buf = [], cap = nat n, chan_closed = False\<rparr>)"

text \<open>
  \<^verbatim>\<open>NewParser\<close>, on a platform whose runtime grants channel buffers up to
  \<open>limit\<close>; the product \<^verbatim>\<open>10*opts.Workers\<close> is a 64-bit product.
\<close>

definition NewParser :: "nat \<Rightarrow> Options \<Rightarrow> Parser outcome" where
  "NewParser limit os =
     (case make_chan limit (int64 (10 * Workers os)) of
        Inl p \<Rightarrow> Panicked p
      | Inr q \<Rightarrow> Returned \<lparr>opts = os, queue = q, stop = False\<rparr>)"

text \<open>\<^verbatim>\<open>close(ch)\<close>: closing a closed channel panics.\<close>

definition close_chan :: "chan \<Rightarrow> panic + chan" where
  "close_chan q = (if chan_closed q then Inl CloseOfClosedChannel else Inr (q\<lparr>chan_closed := True\<rparr>))"

definition Stop :: "Parser \<Rightarrow> Parser outcome" where
  "Stop s =
     (if stop s then Returned s
      else (case close_chan (queue s) of
              Inl p \<Rightarrow> Panicked p
            | Inr q \<Rightarrow> Returned (s\<lparr>stop := True, queue := q\<rparr>)))"

text \<open>\<open>Stop\<close> called \<open>n\<close> times in a row.\<close>

fun Stop_times :: "nat \<Rightarrow> Parser \<Rightarrow> Parser outcome" where
  "Stop_times 0 s = Returned s"
| "Stop_times (Suc n) s =
     (case Stop s of
        Returned s' \<Rightarrow> Stop_times n s'
      | Panicked p \<Rightarrow> Panicked p
      | Blocked \<Rightarrow> Blocked)"

text \<open>The handler of \<^verbatim>\<open>Metrics\<close>: the parser after the request and the response.\<close>

record response =
  content_type :: string
  resp_body :: string

definition Metrics :: "Parser \<Rightarrow> Parser \<times> response" where
  "Metrics s =
     (s, \<lparr>content_type = ''text/plain; charset=utf-8'',
          resp_body = ''cloudfront_logs_shipper_queue_length '' @ decimal (length (buf (queue s)))
            @ [CHR 0x0A]\<rparr>)"

section \<open>parseFile\<close>

text \<open>
  Lines 111 to 125: the label set of the file. \<^verbatim>\<open>parts[0]\<close> and \<^verbatim>\<open>parts[1]\<close>
  are read with no length check; the configured labels are written last, over the
  four labels derived from the key.
\<close>

definition parseFile_labels :: "Options \<Rightarrow> string \<Rightarrow> panic + labels" where
  "parseFile_labels os fn =
     (let parts = Split fn (CHR ''/'') in
      case index_at parts 0 of
        Inl p \<Rightarrow> Inl p
      | Inr namespace \<Rightarrow>
          (case index_at parts 1 of
             Inl p \<Rightarrow> Inl p
           | Inr cloudfrontObjectName \<Rightarrow>
               Inr ((([''namespace'' \<mapsto> namespace, ''cloudfront'' \<mapsto> cloudfrontObjectName])
                      (''cluster'' \<mapsto> ClusterName os,
                       ''index'' \<mapsto> ClusterName os @ ''-'' @ namespace))
                    ++ Labels os)))"

text \<open>
  The loop \<^verbatim>\<open>for scanner.Scan()\<close> over the lines still to come, with the current
  \<^verbatim>\<open>w3cLog.HeaderFields\<close> and the trace so far. It gives back how the loop ended
  (\<open>Returned None\<close>: all lines consumed; \<open>Returned (Some e)\<close>: \<^verbatim>\<open>parseFile\<close> returns
  \<open>e\<close> from inside the loop), the header fields at that point, and the trace.
\<close>

fun scan_lines ::
  "env \<Rightarrow> string list \<Rightarrow> string list \<Rightarrow> call list
    \<Rightarrow> error option outcome \<times> string list \<times> call list" where
  "scan_lines ev HeaderFields [] tr = (Returned None, HeaderFields, tr)"
| "scan_lines ev HeaderFields (line # rest) tr =
     (if HasPrefix line ''#Fields:'' then
        (case slice_from (Fields line) 1 of
           Inl p \<Rightarrow> (Panicked p, HeaderFields, tr)
         | Inr hs \<Rightarrow> scan_lines ev hs rest tr)
      else if HasPrefix line ''#'' \<or> length HeaderFields = 0 then
        scan_lines ev HeaderFields rest tr
      else
        (case parseDataLine line HeaderFields of
           Panicked p \<Rightarrow> (Panicked p, HeaderFields, tr)
         | Blocked \<Rightarrow> (Blocked, HeaderFields, tr)
         | Returned (Inl err) \<Rightarrow>
             (Returned (Some (Wrap ''error parsing data line: '' err)), HeaderFields, tr)
         | Returned (Inr entry) \<Rightarrow>
             (let tr' = tr @ [BatchAdd entry] in
              case add_reply ev tr' of
                Some err \<Rightarrow> (Returned (Some (Wrap ''failed to send batch: '' err)), HeaderFields, tr')
              | None \<Rightarrow> scan_lines ev HeaderFields rest tr')))"

definition parseFile ::
  "env \<Rightarrow> Options \<Rightarrow> string \<Rightarrow> call list \<Rightarrow> error option outcome \<times> call list" where
  "parseFile ev os fn tr =
     (case parseFile_labels os fn of
        Inl p \<Rightarrow> (Panicked p, tr)
      | Inr lbls \<Rightarrow>
          (let tr1 = tr @ [NewBatch lbls];
               tr2 = tr1 @ [GetObject (BucketName os) fn]
           in case get_reply ev tr2 of
                Inl err \<Rightarrow>
                  if Contains (Error_text err) ''NoSuchKey''
                  then (Returned None, tr2 @ [LoggerDebug ''skipping non-existent file'' fn])
                  else (Returned (Some (Wrap (''failed to get object '' @ fn @ '': '') err)), tr2)
              | Inr (BadGzip err) \<Rightarrow>
                  (Returned (Some (Wrap ''failed to create gzip reader: '' err)), tr2)
              | Inr (Lines ls scan_err) \<Rightarrow>
                  (case scan_lines ev [] ls tr2 of
                     (Panicked p, _, tr3) \<Rightarrow> (Panicked p, tr3)
                   | (Blocked, _, tr3) \<Rightarrow> (Blocked, tr3)
                   | (Returned (Some err), _, tr3) \<Rightarrow> (Returned (Some err), tr3)
                   | (Returned None, _, tr3) \<Rightarrow>
                       (case scan_err of
                          Some err \<Rightarrow> (Returned (Some err), tr3)
                        | None \<Rightarrow>
                            (let tr4 = tr3 @ [Printf (''Parsed '' @ fn @ [CHR 0x0A]), BatchFlush]
                             in case flush_reply ev tr4 of
                                  Some err \<Rightarrow>
                                    (Returned (Some (Wrap ''failed to flush batch: '' err)), tr4)
                                | None \<Rightarrow>
                                    (Returned None, tr4 @ [LoggerDebug ''shipped file'' fn]))))))"

section \<open>Worker\<close>

text \<open>
  \<^verbatim>\<open>for fn := range s.queue\<close>, run with no other goroutine: the keys in the buffer
  are received in order; on an empty buffer the loop ends when the channel is closed
  and waits for ever when it is open. The result carries the keys left in the buffer.
\<close>

fun Worker_loop ::
  "env \<Rightarrow> Options \<Rightarrow> bool \<Rightarrow> string list \<Rightarrow> call list
    \<Rightarrow> error option outcome \<times> string list \<times> call list" where
  "Worker_loop ev os closed [] tr = ((if closed then Returned None else Blocked), [], tr)"
| "Worker_loop ev os closed (fn # rest) tr =
     (case parseFile ev os fn tr of
        (Panicked p, tr1) \<Rightarrow> (Panicked p, rest, tr1)
      | (Blocked, tr1) \<Rightarrow> (Blocked, rest, tr1)
      | (Returned (Some err), tr1) \<Rightarrow>
          (Returned (Some err), rest, tr1 @ [LoggerError ''failed to ship file'' fn err])
      | (Returned None, tr1) \<Rightarrow>
          (let tr2 = tr1 @ [DeleteObject (BucketName os) fn] in
           case delete_reply ev tr2 of
             Some err \<Rightarrow>
               Worker_loop ev os closed rest (tr2 @ [LoggerError ''failed to delete file'' fn err])
           | None \<Rightarrow> Worker_loop ev os closed rest tr2))"

definition Worker :: "env \<Rightarrow> Parser \<Rightarrow> call list \<Rightarrow> error option outcome \<times> Parser \<times> call list" where
  "Worker ev s tr =
     (case Worker_loop ev (opts s) (chan_closed (queue s)) (buf (queue s)) tr of
        (out, rest, tr') \<Rightarrow> (out, s\<lparr>queue := (queue s)\<lparr>buf := rest\<rparr>\<rparr>, tr'))"

section \<open>Scan\<close>

text \<open>
  \<^verbatim>\<open>ch <- k\<close>: a send on a closed channel panics; with room in the buffer the key is
  appended; with a full buffer the sender waits for a receiver.
\<close>

definition send :: "chan \<Rightarrow> string \<Rightarrow> chan outcome" where
  "send q k =
     (if chan_closed q then Panicked SendOnClosedChannel
      else if length (buf q) < cap q then Returned (q\<lparr>buf := buf q @ [k]\<rparr>)
      else Blocked)"

text \<open>The loop over \<^verbatim>\<open>output.Contents\<close>, with the channel and \<^verbatim>\<open>num\<close>.\<close>

fun Scan_loop :: "bool \<Rightarrow> chan \<Rightarrow> nat \<Rightarrow> s3object list \<Rightarrow> unit outcome \<times> chan \<times> nat" where
  "Scan_loop stopped q num [] = (Returned (), q, num)"
| "Scan_loop stopped q num (obj # objs) =
     (case Key obj of
        None \<Rightarrow> Scan_loop stopped q num objs
      | Some k \<Rightarrow>
          if stopped then Scan_loop stopped q num objs
          else (case send q k of
                  Panicked p \<Rightarrow> (Panicked p, q, num)
                | Blocked \<Rightarrow> (Blocked, q, num)
                | Returned q' \<Rightarrow> Scan_loop stopped q' (num + 1) objs))"

definition Scan :: "env \<Rightarrow> Parser \<Rightarrow> call list \<Rightarrow> error option outcome \<times> Parser \<times> call list" where
  "Scan ev s tr =
     (let maxKeys = 100;
          tr1 = tr @ [ListObjectsV2 (BucketName (opts s)) maxKeys]
      in case list_reply ev tr1 of
           Inl err \<Rightarrow> (Returned (Some err), s, tr1)
         | Inr contents \<Rightarrow>
             (case Scan_loop (stop s) (queue s) 0 contents of
                (Panicked p, q, num) \<Rightarrow> (Panicked p, s\<lparr>queue := q\<rparr>, tr1)
              | (Blocked, q, num) \<Rightarrow> (Blocked, s\<lparr>queue := q\<rparr>, tr1)
              | (Returned _, q, num) \<Rightarrow>
                  (Returned None, s\<lparr>queue := q\<rparr>,
                   (if num > 0 then tr1 @ [LoggerInfo ''new files'' num (length (buf q))]
                    else tr1))))"

section \<open>Reading a trace\<close>

text \<open>The arguments of the calls of one kind, in the order the calls were made.\<close>

fun added_entry :: "call \<Rightarrow> LogEntry list" where
  "added_entry (BatchAdd e) = [e]"
| "added_entry _ = []"

fun created_batch :: "call \<Rightarrow> labels list" where
  "created_batch (NewBatch l) = [l]"
| "created_batch _ = []"

fun fetched_key :: "call \<Rightarrow> string list" where
  "fetched_key (GetObject b k) = [k]"
| "fetched_key _ = []"

fun deleted_key :: "call \<Rightarrow> string list" where
  "deleted_key (DeleteObject b k) = [k]"
| "deleted_key _ = []"

fun flush_call :: "call \<Rightarrow> unit list" where
  "flush_call BatchFlush = [()]"
| "flush_call _ = []"

fun list_call :: "call \<Rightarrow> nat list" where
  "list_call (ListObjectsV2 b n) = [n]"
| "list_call _ = []"

definition added :: "call list \<Rightarrow> LogEntry list" where
  "added tr = concat (map added_entry tr)"

definition batches_created :: "call list \<Rightarrow> labels list" where
  "batches_created tr = concat (map created_batch tr)"

definition fetched_keys :: "call list \<Rightarrow> string list" where
  "fetched_keys tr = concat (map fetched_key tr)"

definition deleted_keys :: "call list \<Rightarrow> string list" where
  "deleted_keys tr = concat (map deleted_key tr)"

definition flushes :: "call list \<Rightarrow> nat" where
  "flushes tr = length (concat (map flush_call tr))"

definition list_requests :: "call list \<Rightarrow> nat list" where
  "list_requests tr = concat (map list_call tr)"

section \<open>The file format in the words of the specification\<close>


definition is_comment :: "string \<Rightarrow> bool" where
  "is_comment l = prefix ''#'' l"






text \<open>The value a decimal numeral denotes.\<close>

definition decimal_value :: "string \<Rightarrow> nat" where
  "decimal_value ds = foldl (\<lambda>a c. 10 * a + (of_char c - 48)) 0 ds"

text \<open>The keys of a listing that are not nil.\<close>

definition listed_keys :: "s3object list \<Rightarrow> string list" where
  "listed_keys contents = List.map_filter Key contents"

text \<open>
  The invariant of the parser: the channel is closed exactly when \<^verbatim>\<open>stop\<close> is set
  (\<^verbatim>\<open>Stop\<close> is the only place that writes either).
\<close>

definition stop_inv :: "Parser \<Rightarrow> bool" where
  "stop_inv s \<longleftrightarrow> chan_closed (queue s) = stop s"

section \<open>Example inputs\<close>

definition example_opts :: Options where
  "example_opts =
     \<lparr>BucketName = ''logs'', WaitInterval = 60000000000, Format = ''json'',
      LokiURL = ''http://loki:3100'', LokiUser = [], LokiPassword = [],
      ClusterName = ''prod'', Labels = [''job'' \<mapsto> ''cloudfront'', ''cluster'' \<mapsto> ''blue''],
      Workers = 2, Port = 8080\<rparr>"

definition example_key :: string where
  "example_key = ''teamA/dist123/2024010100.log.gz''"

text \<open>An environment in which every call succeeds and every fetch yields \<open>b\<close>.\<close>

definition env_serving :: "body \<Rightarrow> s3object list \<Rightarrow> env" where
  "env_serving b contents =
     \<lparr>list_reply = (\<lambda>tr. Inr contents), get_reply = (\<lambda>tr. Inr b),
      delete_reply = (\<lambda>tr. None), add_reply = (\<lambda>tr. None), flush_reply = (\<lambda>tr. None)\<rparr>"

text \<open>An environment in which every call fails with the error \<open>e\<close>.\<close>

definition env_failing :: "error \<Rightarrow> env" where
  "env_failing e =
     \<lparr>list_reply = (\<lambda>tr. Inl e), get_reply = (\<lambda>tr. Inl e),
      delete_reply = (\<lambda>tr. Some e), add_reply = (\<lambda>tr. Some e), flush_reply = (\<lambda>tr. Some e)\<rparr>"

definition example_parser :: Parser where
  "example_parser =
     \<lparr>opts = example_opts,
      queue = \<lparr>buf = [''teamB/d9/a.gz''], cap = 20, chan_closed = False\<rparr>,
      stop = False\<rparr>"

text \<open>An environment in which only the delete request fails, with the error \<open>e\<close>.\<close>

definition env_undeletable :: "body \<Rightarrow> error \<Rightarrow> env" where
  "env_undeletable b e =
     \<lparr>list_reply = (\<lambda>tr. Inr []), get_reply = (\<lambda>tr. Inr b),
      delete_reply = (\<lambda>tr. Some e), add_reply = (\<lambda>tr. None), flush_reply = (\<lambda>tr. None)\<rparr>"

text \<open>The label set of \<open>example_key\<close> under \<open>example_opts\<close>.\<close>

definition example_labels :: labels where
  "example_labels =
     [''namespace'' \<mapsto> ''teamA'', ''cloudfront'' \<mapsto> ''dist123'', ''cluster'' \<mapsto> ''prod'',
      ''index'' \<mapsto> ''prod-teamA''] ++ [''job'' \<mapsto> ''cloudfront'', ''cluster'' \<mapsto> ''blue'']"

text \<open>Three files: a well-formed one, one with a short data line, one with a repeated field name.\<close>

definition file_ok :: "string list" where
  "file_ok = [''#Version: 1.0'', ''#Fields: date time c-ip'', ''2024-01-01 00:00:00 1.2.3.4'']"

definition file_short_line :: "string list" where
  "file_short_line =
     [''#Version: 1.0'', ''#Fields: date time c-ip'', ''2024-01-01 00:00:00 1.2.3.4'',
      ''2024-01-01 00:00:01'', ''2024-01-01 00:00:02 1.2.3.5'']"


definition error_no_such_key :: error where
  "error_no_such_key =
     ClientError ''operation error S3: GetObject, StatusCode: 404, api error NoSuchKey: The specified key does not exist.''"

section \<open>Properties\<close>

declare decimal.simps [simp del]

lemma Split_acc_length: "length (Split_acc sep acc s) = Suc (length (filter (\<lambda>c. c = sep) s))"
  by (induction s arbitrary: acc) auto

lemma Split_length: "length (Split s sep) = Suc (length (filter (\<lambda>c. c = sep) s))"
  by (simp add: Split_def Split_acc_length)

lemma Split_short_iff: "length (Split s sep) < 2 \<longleftrightarrow> sep \<notin> set s"
proof -
  have "length (filter (\<lambda>c. c = sep) s) = 0 \<longleftrightarrow> sep \<notin> set s"
    by (auto simp: filter_empty_conv)
  then show ?thesis
    by (simp add: Split_length)
qed

lemma Split_acc_segment:
  "sep \<notin> set a \<Longrightarrow> Split_acc sep acc (a @ sep # r) = (rev acc @ a) # Split_acc sep [] r"
  by (induction a arbitrary: acc) auto

lemma Split_acc_last:
  "sep \<notin> set a \<Longrightarrow> Split_acc sep acc a = [rev acc @ a]"
  by (induction a arbitrary: acc) auto

lemma Split_segment: "sep \<notin> set a \<Longrightarrow> Split (a @ sep # r) sep = a # Split r sep"
  by (simp add: Split_def Split_acc_segment)

lemma Split_hd_nonempty: "Split s sep \<noteq> []"
  using Split_length [of s sep] by auto

lemma Fields_scan_open: "cur \<noteq> [] \<Longrightarrow> Fields_scan cur 0 s \<noteq> []"
  by (induction s arbitrary: cur) (auto split: nat.splits)

lemma space_width_hash: "space_width (CHR ''#'' # cs) = 0"
  by (simp add: asciiSpace_def)

lemma Fields_hash: "HasPrefix line ''#'' \<Longrightarrow> Fields line \<noteq> []"
  by (cases line) (auto simp: HasPrefix_def Fields_def space_width_hash Fields_scan_open simp del: space_width.simps)

lemma HasPrefix_Fields_hash: "HasPrefix line ''#Fields:'' \<Longrightarrow> HasPrefix line ''#''"
  by (auto simp: HasPrefix_def prefix_def)

lemma slice_header: "HasPrefix line ''#Fields:'' \<Longrightarrow> slice_from (Fields line) (Suc 0) = Inr (tl (Fields line))"
  using Fields_hash [OF HasPrefix_Fields_hash, of line]
  by (cases "Fields line") (auto simp: slice_from_def)

lemma entry_loop_upds:
  "i + length names \<le> length flds \<Longrightarrow>
   entry_loop i names flds entry = Inr (entry (names [\<mapsto>] drop i flds))"
proof (induction names arbitrary: i entry)
  case Nil
  then show ?case by simp
next
  case (Cons name names)
  then have lt: "i < length flds" by simp
  then have d: "drop i flds = flds ! i # drop (Suc i) flds"
    by (simp add: Cons_nth_drop_Suc)
  from Cons.prems have "Suc i + length names \<le> length flds" by simp
  then have "entry_loop (Suc i) names flds (entry(name \<mapsto> flds ! i)) =
      Inr ((entry(name \<mapsto> flds ! i)) (names [\<mapsto>] drop (Suc i) flds))"
    by (rule Cons.IH)
  moreover have "index_at flds i = Inr (flds ! i)"
    using lt by (simp add: index_at_def)
  ultimately show ?case
    by (simp add: d)
qed


lemma parseFile_labels_short:
  "CHR ''/'' \<notin> set fn \<Longrightarrow> parseFile_labels os fn = Inl (IndexOutOfRange 1 1)"
proof -
  assume "CHR ''/'' \<notin> set fn"
  then have "Split fn (CHR ''/'') = [fn]"
    by (simp add: Split_def Split_acc_last)
  then show ?thesis
    by (simp add: parseFile_labels_def index_at_def)
qed

lemma parseFile_labels_long:
  assumes "CHR ''/'' \<in> set fn"
  shows "parseFile_labels os fn =
     Inr ([''namespace'' \<mapsto> Split fn (CHR ''/'') ! 0, ''cloudfront'' \<mapsto> Split fn (CHR ''/'') ! 1,
           ''cluster'' \<mapsto> ClusterName os,
           ''index'' \<mapsto> ClusterName os @ ''-'' @ Split fn (CHR ''/'') ! 0] ++ Labels os)"
proof -
  from assms have "\<not> length (Split fn (CHR ''/'')) < 2"
    by (simp only: Split_short_iff) simp
  then have "Split fn (CHR ''/'') \<noteq> []" "Suc 0 < length (Split fn (CHR ''/''))"
    by (auto simp: not_less)
  then show ?thesis
    by (simp add: parseFile_labels_def index_at_def Let_def)
qed

lemma parseDataLine_returns: "\<exists>r. parseDataLine line h = Returned r"
proof (cases "length (Fields line) = length h")
  case True
  then have "0 + length h \<le> length (Fields line)" by simp
  from entry_loop_upds [OF this] True show ?thesis
    by (simp add: parseDataLine_def)
next
  case False
  then show ?thesis by (simp add: parseDataLine_def)
qed


lemma parseDataLine_mismatch:
  "length (Fields line) \<noteq> length h \<Longrightarrow>
   parseDataLine line h = Returned (Inl (FieldCountMismatch (length h) (length (Fields line))))"
  by (simp add: parseDataLine_def)

lemma scan_lines_returns: "\<exists>r. fst (scan_lines ev h ls tr) = Returned r"
proof (induction ls arbitrary: h tr)
  case Nil
  show ?case by simp
next
  case (Cons line rest)
  show ?case
  proof (cases "HasPrefix line ''#Fields:''")
    case True
    then show ?thesis
      using Cons.IH by (simp add: slice_header)
  next
    case nohdr: False
    show ?thesis
    proof (cases "HasPrefix line ''#'' \<or> length h = 0")
      case True
      then show ?thesis using nohdr Cons.IH by simp
    next
      case False
      obtain r where r: "parseDataLine line h = Returned r"
        using parseDataLine_returns by blast
      show ?thesis
        using nohdr False r Cons.IH
        by (cases r) (simp_all add: Let_def split: option.splits)
    qed
  qed
qed


lemma batches_created_append: "batches_created (xs @ ys) = batches_created xs @ batches_created ys"
  by (simp add: batches_created_def)

lemma fetched_keys_append: "fetched_keys (xs @ ys) = fetched_keys xs @ fetched_keys ys"
  by (simp add: fetched_keys_def)

lemma deleted_keys_append: "deleted_keys (xs @ ys) = deleted_keys xs @ deleted_keys ys"
  by (simp add: deleted_keys_def)

lemma flushes_append: "flushes (xs @ ys) = flushes xs + flushes ys"
  by (simp add: flushes_def)

lemma list_requests_append: "list_requests (xs @ ys) = list_requests xs @ list_requests ys"
  by (simp add: list_requests_def)

lemma added_adds: "added (map BatchAdd es) = es"
  by (induction es) (simp_all add: added_def)

lemma batches_created_adds: "batches_created (map BatchAdd es) = []"
  by (induction es) (simp_all add: batches_created_def)

lemma fetched_keys_adds: "fetched_keys (map BatchAdd es) = []"
  by (induction es) (simp_all add: fetched_keys_def)

lemma deleted_keys_adds: "deleted_keys (map BatchAdd es) = []"
  by (induction es) (simp_all add: deleted_keys_def)

lemma flushes_adds: "flushes (map BatchAdd es) = 0"
  by (induction es) (simp_all add: flushes_def)

lemma list_requests_adds: "list_requests (map BatchAdd es) = []"
  by (induction es) (simp_all add: list_requests_def)

text \<open>Whatever the environment does, the scan only ever adds entries to the batch.\<close>

lemma scan_lines_adds_only: "\<exists>es. snd (snd (scan_lines ev h ls tr)) = tr @ map BatchAdd es"
proof (induction ls arbitrary: h tr)
  case Nil
  show ?case by simp
next
  case (Cons line rest)
  show ?case
  proof (cases "HasPrefix line ''#Fields:''")
    case True
    then show ?thesis
      using Cons.IH by (simp add: slice_header)
  next
    case nohdr: False
    show ?thesis
    proof (cases "HasPrefix line ''#'' \<or> length h = 0")
      case True
      then show ?thesis using nohdr Cons.IH by simp
    next
      case data: False
      obtain r where r: "parseDataLine line h = Returned r"
        using parseDataLine_returns by blast
      show ?thesis
      proof (cases r)
        case (Inl err)
        then show ?thesis using nohdr data r by simp
      next
        case (Inr entry)
        show ?thesis
        proof (cases "add_reply ev (tr @ [BatchAdd entry])")
          case None
          obtain es where "snd (snd (scan_lines ev h rest (tr @ [BatchAdd entry]))) =
              (tr @ [BatchAdd entry]) @ map BatchAdd es"
            using Cons.IH by blast
          then have "snd (snd (scan_lines ev h rest (tr @ [BatchAdd entry]))) =
              tr @ map BatchAdd (entry # es)"
            by simp
          moreover have "scan_lines ev h (line # rest) tr =
              scan_lines ev h rest (tr @ [BatchAdd entry])"
            using nohdr data r Inr None by (simp add: Let_def)
          ultimately have "snd (snd (scan_lines ev h (line # rest) tr)) =
              tr @ map BatchAdd (entry # es)"
            by simp
          then show ?thesis ..
        next
          case (Some e)
          have "scan_lines ev h (line # rest) tr =
              (Returned (Some (Wrap ''failed to send batch: '' e)), h, tr @ map BatchAdd [entry])"
            using nohdr data r Inr Some by (simp add: Let_def)
          then have "snd (snd (scan_lines ev h (line # rest) tr)) = tr @ map BatchAdd [entry]"
            by simp
          then show ?thesis ..
        qed
      qed
    qed
  qed
qed


lemma scan_lines_append:
  "scan_lines ev h (pre @ post) tr =
     (case scan_lines ev h pre tr of
        (Returned None, h', tr') \<Rightarrow> scan_lines ev h' post tr'
      | other \<Rightarrow> other)"
proof (induction pre arbitrary: h tr)
  case Nil
  show ?case by simp
next
  case (Cons line rest)
  show ?case
  proof (cases "HasPrefix line ''#Fields:''")
    case True
    then show ?thesis
      using Cons.IH by (simp add: slice_header)
  next
    case nohdr: False
    show ?thesis
    proof (cases "HasPrefix line ''#'' \<or> length h = 0")
      case True
      then show ?thesis using nohdr Cons.IH by simp
    next
      case data: False
      obtain r where r: "parseDataLine line h = Returned r"
        using parseDataLine_returns by blast
      show ?thesis
        using nohdr data r Cons.IH
        by (cases r) (simp_all add: Let_def split: option.splits)
    qed
  qed
qed

lemma scan_lines_mismatch:
  assumes "h \<noteq> []" and "\<not> is_comment bad" and "length (Fields bad) \<noteq> length h"
  shows "scan_lines ev h (bad # post) tr =
    (Returned (Some (Wrap ''error parsing data line: ''
        (FieldCountMismatch (length h) (length (Fields bad))))), h, tr)"
proof -
  from assms(2) have c: "\<not> HasPrefix bad ''#''"
    by (simp add: is_comment_def HasPrefix_def)
  then have "\<not> HasPrefix bad ''#Fields:''"
    using HasPrefix_Fields_hash by blast
  then show ?thesis
    using c assms(1) parseDataLine_mismatch [OF assms(3)] by simp
qed

lemma parseFile_returns:
  assumes "CHR ''/'' \<in> set fn"
  shows "\<exists>r. fst (parseFile ev os fn tr) = Returned r"
proof -
  let ?l = "[''namespace'' \<mapsto> Split fn (CHR ''/'') ! 0, ''cloudfront'' \<mapsto> Split fn (CHR ''/'') ! 1,
           ''cluster'' \<mapsto> ClusterName os,
           ''index'' \<mapsto> ClusterName os @ ''-'' @ Split fn (CHR ''/'') ! 0] ++ Labels os"
  let ?tr2 = "tr @ [NewBatch ?l, GetObject (BucketName os) fn]"
  have l: "parseFile_labels os fn = Inr ?l"
    by (rule parseFile_labels_long [OF assms])
  show ?thesis
  proof (cases "get_reply ev ?tr2")
    case (Inl err)
    then show ?thesis using l by (simp add: parseFile_def Let_def)
  next
    case (Inr b)
    show ?thesis
    proof (cases b)
      case (BadGzip err)
      then show ?thesis using l Inr by (simp add: parseFile_def Let_def)
    next
      case (Lines ls scan_err)
      obtain r where "fst (scan_lines ev [] ls ?tr2) = Returned r"
        using scan_lines_returns by blast
      then obtain h' tr3 where "scan_lines ev [] ls ?tr2 = (Returned r, h', tr3)"
        by (cases "scan_lines ev [] ls ?tr2") auto
      then show ?thesis
        using l Inr Lines
        by (simp add: parseFile_def Let_def split: option.splits)
    qed
  qed
qed

lemma parseFile_total_iff:
  "(\<exists>r. fst (parseFile ev os fn tr) = Returned r) \<longleftrightarrow> 2 \<le> length (Split fn (CHR ''/''))"
proof (cases "CHR ''/'' \<in> set fn")
  case True
  then have "2 \<le> length (Split fn (CHR ''/''))"
    using Split_short_iff [of fn "CHR ''/''"] by simp
  then show ?thesis using parseFile_returns [OF True] by simp
next
  case False
  then have "\<not> 2 \<le> length (Split fn (CHR ''/''))"
    using Split_short_iff [of fn "CHR ''/''"] by simp
  moreover have "parseFile ev os fn tr = (Panicked (IndexOutOfRange 1 1), tr)"
    using parseFile_labels_short [OF False] by (simp add: parseFile_def)
  ultimately show ?thesis by simp
qed

text \<open>The calls of one run of \<open>parseFile\<close>, whatever the environment answers.\<close>

lemma parseFile_trace:
  assumes l: "parseFile_labels os fn = Inr l"
  shows "\<exists>es tail. snd (parseFile ev os fn tr) =
      tr @ [NewBatch l, GetObject (BucketName os) fn] @ map BatchAdd es @ tail \<and>
      (tail = [] \<or> tail = [LoggerDebug ''skipping non-existent file'' fn] \<or>
       tail = [Printf (''Parsed '' @ fn @ [CHR 0x0A]), BatchFlush] \<or>
       tail = [Printf (''Parsed '' @ fn @ [CHR 0x0A]), BatchFlush, LoggerDebug ''shipped file'' fn])"
proof -
  let ?tr2 = "tr @ [NewBatch l, GetObject (BucketName os) fn]"
  let ?P = "\<lambda>es tail. snd (parseFile ev os fn tr) = ?tr2 @ map BatchAdd es @ tail \<and>
      (tail = [] \<or> tail = [LoggerDebug ''skipping non-existent file'' fn] \<or>
       tail = [Printf (''Parsed '' @ fn @ [CHR 0x0A]), BatchFlush] \<or>
       tail = [Printf (''Parsed '' @ fn @ [CHR 0x0A]), BatchFlush, LoggerDebug ''shipped file'' fn])"
  have "\<exists>es tail. ?P es tail"
  proof (cases "get_reply ev ?tr2")
    case (Inl err)
    show ?thesis
    proof (cases "Contains (Error_text err) ''NoSuchKey''")
      case True
      then have "?P [] [LoggerDebug ''skipping non-existent file'' fn]"
        using l Inl by (simp add: parseFile_def Let_def)
      then show ?thesis by blast
    next
      case False
      then have "?P [] []"
        using l Inl by (simp add: parseFile_def Let_def)
      then show ?thesis by blast
    qed
  next
    case (Inr b)
    show ?thesis
    proof (cases b)
      case (BadGzip err)
      then have "?P [] []"
        using l Inr by (simp add: parseFile_def Let_def)
      then show ?thesis by blast
    next
      case (Lines ls scan_err)
      obtain r where "fst (scan_lines ev [] ls ?tr2) = Returned r"
        using scan_lines_returns by blast
      moreover obtain es where "snd (snd (scan_lines ev [] ls ?tr2)) = ?tr2 @ map BatchAdd es"
        using scan_lines_adds_only by blast
      ultimately obtain h' where sc: "scan_lines ev [] ls ?tr2 = (Returned r, h', ?tr2 @ map BatchAdd es)"
        by (cases "scan_lines ev [] ls ?tr2") auto
      show ?thesis
      proof (cases r)
        case (Some err)
        then have "?P es []"
          using l Inr Lines sc by (simp add: parseFile_def Let_def)
        then show ?thesis by blast
      next
        case None
        show ?thesis
        proof (cases scan_err)
          case (Some err)
          then have "?P es []"
            using l Inr Lines sc None by (simp add: parseFile_def Let_def)
          then show ?thesis by blast
        next
          case noerr: None
          let ?tr4 = "(?tr2 @ map BatchAdd es) @ [Printf (''Parsed '' @ fn @ [CHR 0x0A]), BatchFlush]"
          show ?thesis
          proof (cases "flush_reply ev ?tr4")
            case None
            then have "?P es [Printf (''Parsed '' @ fn @ [CHR 0x0A]), BatchFlush,
                LoggerDebug ''shipped file'' fn]"
              using l Inr Lines sc \<open>r = None\<close> noerr by (simp add: parseFile_def Let_def)
            then show ?thesis by blast
          next
            case (Some err)
            then have "?P es [Printf (''Parsed '' @ fn @ [CHR 0x0A]), BatchFlush]"
              using l Inr Lines sc \<open>r = None\<close> noerr by (simp add: parseFile_def Let_def)
            then show ?thesis by blast
          qed
        qed
      qed
    qed
  qed
  then show ?thesis by simp
qed

lemma parseFile_panic_trace:
  "parseFile_labels os fn = Inl p \<Longrightarrow> parseFile ev os fn tr = (Panicked p, tr)"
  by (simp add: parseFile_def)

lemma parseFile_deleted_keys: "deleted_keys (snd (parseFile ev os fn tr)) = deleted_keys tr"
proof (cases "parseFile_labels os fn")
  case (Inl p)
  then show ?thesis by (simp add: parseFile_panic_trace)
next
  case (Inr l)
  from parseFile_trace [OF this, of ev tr] show ?thesis
    by (auto simp: deleted_keys_append deleted_keys_adds) (simp_all add: deleted_keys_def)
qed

lemma parseFile_fetched_keys:
  "parseFile_labels os fn = Inr l \<Longrightarrow>
   fetched_keys (snd (parseFile ev os fn tr)) = fetched_keys tr @ [fn]"
  using parseFile_trace [of os fn l ev tr]
  by (auto simp: fetched_keys_append fetched_keys_adds) (simp_all add: fetched_keys_def)

lemma parseFile_batches_created:
  "parseFile_labels os fn = Inr l \<Longrightarrow>
   batches_created (snd (parseFile ev os fn tr)) = batches_created tr @ [l]"
  using parseFile_trace [of os fn l ev tr]
  by (auto simp: batches_created_append batches_created_adds) (simp_all add: batches_created_def)

lemma digit_value: "d < 10 \<Longrightarrow> of_char (''0123456789'' ! d) - 48 = (d::nat)"
proof -
  assume "d < 10"
  then have "d = 0 \<or> d = 1 \<or> d = 2 \<or> d = 3 \<or> d = 4 \<or> d = 5 \<or> d = 6 \<or> d = 7 \<or> d = 8 \<or> d = 9"
    by arith
  then show ?thesis
    by (elim disjE) simp_all
qed

lemma digit_char: "d < 10 \<Longrightarrow> ''0123456789'' ! d \<in> set ''0123456789''"
  by (rule nth_mem) simp

lemma decimal_value_snoc: "decimal_value (ds @ [c]) = 10 * decimal_value ds + (of_char c - 48)"
  by (simp add: decimal_value_def)

lemma decimal_value_decimal: "decimal_value (decimal n) = n"
proof (induction n rule: decimal.induct)
  case (1 n)
  show ?case
  proof (cases "n < 10")
    case True
    then have "decimal n = [''0123456789'' ! n]"
      by (simp add: decimal.simps)
    then show ?thesis
      using digit_value [OF True] by (simp add: decimal_value_def)
  next
    case False
    then have d: "decimal n = decimal (n div 10) @ [''0123456789'' ! (n mod 10)]"
      by (subst decimal.simps) simp
    have "n mod 10 < 10" by simp
    from digit_value [OF this] "1.IH" [OF False] show ?thesis
      by (simp only: d decimal_value_snoc) simp
  qed
qed

lemma decimal_digits: "set (decimal n) \<subseteq> set ''0123456789''"
proof (induction n rule: decimal.induct)
  case (1 n)
  show ?case
  proof (cases "n < 10")
    case True
    then have "decimal n = [''0123456789'' ! n]"
      by (simp add: decimal.simps)
    then show ?thesis
      using digit_char [OF True] by simp
  next
    case False
    then have d: "decimal n = decimal (n div 10) @ [''0123456789'' ! (n mod 10)]"
      by (subst decimal.simps) simp
    have "n mod 10 < 10" by simp
    from digit_char [OF this] "1.IH" [OF False] show ?thesis
      by (simp only: d) simp
  qed
qed

lemma decimal_no_newline: "CHR 0x0A \<notin> set (decimal n)"
  using decimal_digits [of n] by auto

lemma Stop_stopped: "stop s \<Longrightarrow> Stop s = Returned s"
  by (simp add: Stop_def)

lemma Stop_times_stopped: "stop s \<Longrightarrow> Stop_times n s = Returned s"
  by (induction n) (simp_all add: Stop_stopped)

lemma Stop_running:
  "stop_inv s \<Longrightarrow> \<not> stop s \<Longrightarrow>
   Stop s = Returned (s\<lparr>stop := True, queue := (queue s)\<lparr>chan_closed := True\<rparr>\<rparr>)"
  by (simp add: Stop_def stop_inv_def close_chan_def)

lemma Stop_result:
  "stop_inv s \<Longrightarrow> Stop s = Returned (s\<lparr>stop := True, queue := (queue s)\<lparr>chan_closed := True\<rparr>\<rparr>)"
  by (cases "stop s") (simp_all add: Stop_running, simp add: Stop_def stop_inv_def)

lemma NewParser_inv: "NewParser limit os = Returned s \<Longrightarrow> stop_inv s"
  by (auto simp: NewParser_def make_chan_def stop_inv_def split: if_splits)

lemma NewParser_capacity:
  "NewParser limit os = Returned s \<Longrightarrow>
   int (cap (queue s)) = int64 (10 * Workers os) \<and> buf (queue s) = [] \<and> \<not> stop s \<and> opts s = os"
  by (auto simp: NewParser_def make_chan_def split: if_splits)

lemma int64_in_range: "- (2 ^ 63) \<le> x \<Longrightarrow> x < 2 ^ 63 \<Longrightarrow> int64 x = x"
  by (simp add: int64_def)

lemma NewParser_example:
  "NewParser 1000 example_opts =
     Returned \<lparr>opts = example_opts, queue = \<lparr>buf = [], cap = 20, chan_closed = False\<rparr>, stop = False\<rparr>"
  by (simp add: NewParser_def make_chan_def int64_def example_opts_def)

lemma Stop_inv: "stop_inv s \<Longrightarrow> Stop s = Returned s' \<Longrightarrow> stop_inv s'"
  by (auto simp: Stop_result stop_inv_def)

lemma listed_keys_Nil: "listed_keys [] = []"
  by (simp add: listed_keys_def map_filter_simps)

lemma listed_keys_Cons:
  "listed_keys (obj # objs) =
     (case Key obj of None \<Rightarrow> listed_keys objs | Some k \<Rightarrow> k # listed_keys objs)"
  by (simp add: listed_keys_def map_filter_simps split: option.splits)

lemma Scan_loop_stopped: "Scan_loop True q num objs = (Returned (), q, num)"
  by (induction objs) (simp_all split: option.splits)

text \<open>
  The loop on an open channel: the non-nil keys go to the buffer in the order listed,
  as many as there is room for; with room for all the loop ends, otherwise it waits at
  the first key that finds the buffer full.
\<close>

lemma Scan_loop_open:
  "\<not> chan_closed q \<Longrightarrow>
   Scan_loop False q num objs =
     (if length (listed_keys objs) \<le> cap q - length (buf q)
      then (Returned (), q\<lparr>buf := buf q @ listed_keys objs\<rparr>, num + length (listed_keys objs))
      else (Blocked, q\<lparr>buf := buf q @ take (cap q - length (buf q)) (listed_keys objs)\<rparr>,
            num + (cap q - length (buf q))))"
proof (induction objs arbitrary: q num)
  case Nil
  then show ?case by (simp add: listed_keys_Nil)
next
  case (Cons obj objs)
  show ?case
  proof (cases "Key obj")
    case None
    then show ?thesis
      using Cons.IH [OF Cons.prems, of num] by (simp add: listed_keys_Cons)
  next
    case (Some k)
    show ?thesis
    proof (cases "length (buf q) < cap q")
      case True
      let ?q = "q\<lparr>buf := buf q @ [k]\<rparr>"
      have s: "send q k = Returned ?q"
        using Cons.prems True by (simp add: send_def)
      have open': "\<not> chan_closed ?q"
        using Cons.prems by simp
      have free: "cap q - length (buf q) = Suc (cap ?q - length (buf ?q))"
        using True by simp
      have "Scan_loop False q num (obj # objs) = Scan_loop False ?q (num + 1) objs"
        using Some s by simp
      also note Cons.IH [OF open', of "num + 1"]
      finally show ?thesis
        using Some free by (simp add: listed_keys_Cons)
    next
      case False
      then have s: "send q k = Blocked"
        using Cons.prems by (simp add: send_def)
      from False have "cap q - length (buf q) = 0" by simp
      then show ?thesis
        using Some s by (simp add: listed_keys_Cons)
    qed
  qed
qed

lemma Scan_inv: "stop_inv s \<Longrightarrow> stop_inv (fst (snd (Scan ev s tr)))"
proof (cases "stop s")
  case True
  assume "stop_inv s"
  then show ?thesis
    using True
    by (cases "list_reply ev (tr @ [ListObjectsV2 (BucketName (opts s)) 100])")
      (simp_all add: Scan_def Let_def Scan_loop_stopped stop_inv_def)
next
  case False
  assume "stop_inv s"
  then have "\<not> chan_closed (queue s)"
    using False by (simp add: stop_inv_def)
  then show ?thesis
    using False \<open>stop_inv s\<close>
    by (cases "list_reply ev (tr @ [ListObjectsV2 (BucketName (opts s)) 100])")
      (simp_all add: Scan_def Let_def Scan_loop_open stop_inv_def)
qed

lemma Fields_scan_directive:
  "Fields_scan [] 0 (''#Fields:'' @ r) = Fields_scan (rev ''#Fields:'') 0 r"
  by (simp add: asciiSpace_def)

lemma Fields_directive_token:
  assumes "r = [] \<or> 0 < space_width r"
  shows "Fields (''#Fields:'' @ r) = ''#Fields:'' # Fields r"
proof (cases r)
  case Nil
  then show ?thesis
    unfolding Fields_def Fields_scan_directive by simp
next
  case (Cons c cs)
  with assms obtain k where k: "space_width (c # cs) = Suc k"
    by (cases "space_width (c # cs)") auto
  have "Fields_scan (rev ''#Fields:'') 0 (c # cs) = [rev (rev ''#Fields:'')] @ Fields_scan [] k cs"
    using k by (simp del: space_width.simps)
  moreover have "Fields_scan [] 0 (c # cs) = Fields_scan [] k cs"
    using k by (simp del: space_width.simps)
  ultimately show ?thesis
    unfolding Fields_def Fields_scan_directive Cons by simp
qed

lemma scan_lines_skip_unpopulated:
  "list_all (\<lambda>l. \<not> HasPrefix l ''#Fields:'') pre \<Longrightarrow>
   scan_lines ev [] (pre @ rest) tr = scan_lines ev [] rest tr"
  by (induction pre) simp_all

lemma scan_lines_skip_comment:
  assumes "HasPrefix c ''#''" and "\<not> HasPrefix c ''#Fields:''"
  shows "scan_lines ev h (pre @ c # rest) tr = scan_lines ev h (pre @ rest) tr"
proof -
  have "\<And>h' tr'. scan_lines ev h' (c # rest) tr' = scan_lines ev h' rest tr'"
    using assms by simp
  then show ?thesis
    by (simp only: scan_lines_append)
qed

lemma scan_lines_header:
  "HasPrefix hl ''#Fields:'' \<Longrightarrow>
   scan_lines ev h (hl # rest) tr = scan_lines ev (tl (Fields hl)) rest tr"
  by (simp add: slice_header)






lemma parseFile_outcome:
  "parseFile_labels os fn = Inr l \<Longrightarrow> \<exists>r. fst (parseFile ev os fn tr) = Returned r"
proof -
  assume l: "parseFile_labels os fn = Inr l"
  have "CHR ''/'' \<in> set fn"
  proof (rule ccontr)
    assume "CHR ''/'' \<notin> set fn"
    from parseFile_labels_short [OF this, of os] l show False by simp
  qed
  then show ?thesis by (rule parseFile_returns)
qed

lemma parseFile_not_blocked: "fst (parseFile ev os fn tr) \<noteq> Blocked"
proof (cases "parseFile_labels os fn")
  case (Inl p)
  then show ?thesis by (simp add: parseFile_panic_trace)
next
  case (Inr l)
  from parseFile_outcome [OF this, of ev tr] show ?thesis by auto
qed

lemma parseFile_panic_no_call:
  "parseFile ev os fn tr = (Panicked p, tr1) \<Longrightarrow> tr1 = tr"
proof (cases "parseFile_labels os fn")
  case (Inl q)
  assume "parseFile ev os fn tr = (Panicked p, tr1)"
  then show ?thesis using parseFile_panic_trace [OF Inl, of ev tr] by simp
next
  case (Inr l)
  assume "parseFile ev os fn tr = (Panicked p, tr1)"
  then show ?thesis using parseFile_outcome [OF Inr, of ev tr] by auto
qed

lemma parseFile_returned_fetched:
  assumes "parseFile ev os fn tr = (Returned r, tr1)"
  shows "fetched_keys tr1 = fetched_keys tr @ [fn]"
proof (cases "parseFile_labels os fn")
  case (Inl q)
  then show ?thesis using parseFile_panic_trace [OF Inl, of ev tr] assms by simp
next
  case (Inr l)
  from parseFile_fetched_keys [OF this, of ev tr] assms show ?thesis by simp
qed

text \<open>The three ways one turn of the worker loop can go.\<close>

lemma Worker_loop_shipped:
  assumes "parseFile ev os fn tr = (Returned None, tr1)"
  shows "Worker_loop ev os closed (fn # rest) tr =
    Worker_loop ev os closed rest
      (tr1 @ DeleteObject (BucketName os) fn #
        (case delete_reply ev (tr1 @ [DeleteObject (BucketName os) fn]) of
           None \<Rightarrow> []
         | Some e \<Rightarrow> [LoggerError ''failed to delete file'' fn e]))"
  using assms by (simp add: Let_def split: option.splits)

lemma Worker_loop_failed:
  assumes "parseFile ev os fn tr = (Returned (Some err), tr1)"
  shows "Worker_loop ev os closed (fn # rest) tr =
    (Returned (Some err), rest, tr1 @ [LoggerError ''failed to ship file'' fn err])"
  using assms by simp

lemma Worker_loop_panicked:
  assumes "parseFile ev os fn tr = (Panicked p, tr1)"
  shows "Worker_loop ev os closed (fn # rest) tr = (Panicked p, rest, tr1)"
  using assms by simp

lemma deleted_keys_after_delete:
  "deleted_keys (tr1 @ DeleteObject b fn #
      (case d of None \<Rightarrow> [] | Some e \<Rightarrow> [LoggerError m fn e])) = deleted_keys tr1 @ [fn]"
  by (cases d) (simp_all add: deleted_keys_def)

lemma fetched_keys_after_delete:
  "fetched_keys (tr1 @ DeleteObject b fn #
      (case d of None \<Rightarrow> [] | Some e \<Rightarrow> [LoggerError m fn e])) = fetched_keys tr1"
  by (cases d) (simp_all add: fetched_keys_def)

lemma deleted_keys_ship_error:
  "deleted_keys (tr1 @ [LoggerError m fn e]) = deleted_keys tr1"
  by (simp add: deleted_keys_def)

lemma fetched_keys_ship_error:
  "fetched_keys (tr1 @ [LoggerError m fn e]) = fetched_keys tr1"
  by (simp add: fetched_keys_def)

text \<open>
  Whole runs of the worker loop, whatever the environment answers. A run that ends
  because the buffer is empty has deleted every key, in order, and fetched each once.
\<close>

lemma Worker_loop_drained:
  "Worker_loop ev os closed keys tr = (out, left, tr') \<Longrightarrow> out = Returned None \<or> out = Blocked \<Longrightarrow>
   left = [] \<and> (out = Returned None \<longleftrightarrow> closed) \<and>
   deleted_keys tr' = deleted_keys tr @ keys \<and> fetched_keys tr' = fetched_keys tr @ keys"
proof (induction keys arbitrary: tr)
  case Nil
  then show ?case by (auto split: if_splits)
next
  case (Cons fn rest)
  obtain o1 tr1 where pf: "parseFile ev os fn tr = (o1, tr1)"
    by (cases "parseFile ev os fn tr")
  show ?case
  proof (cases o1)
    case (Returned r)
    show ?thesis
    proof (cases r)
      case None
      let ?tr3 = "tr1 @ DeleteObject (BucketName os) fn #
        (case delete_reply ev (tr1 @ [DeleteObject (BucketName os) fn]) of
           None \<Rightarrow> []
         | Some e \<Rightarrow> [LoggerError ''failed to delete file'' fn e])"
      have pf': "parseFile ev os fn tr = (Returned None, tr1)"
        using pf Returned None by simp
      have "Worker_loop ev os closed rest ?tr3 = (out, left, tr')"
        using Cons.prems(1) by (simp only: Worker_loop_shipped [OF pf'])
      from Cons.IH [OF this Cons.prems(2)]
      have ih: "left = []" "(out = Returned None) = closed"
        "deleted_keys tr' = deleted_keys ?tr3 @ rest" "fetched_keys tr' = fetched_keys ?tr3 @ rest"
        by blast+
      have d: "deleted_keys tr1 = deleted_keys tr"
        using parseFile_deleted_keys [of ev os fn tr] pf' by simp
      have f: "fetched_keys tr1 = fetched_keys tr @ [fn]"
        by (rule parseFile_returned_fetched [OF pf'])
      show ?thesis
        using ih by (simp add: deleted_keys_after_delete fetched_keys_after_delete d f)
    next
      case (Some err)
      then have "parseFile ev os fn tr = (Returned (Some err), tr1)"
        using pf Returned by simp
      from Worker_loop_failed [OF this, of closed rest] Cons.prems show ?thesis
        by auto
    qed
  next
    case (Panicked p)
    then have "parseFile ev os fn tr = (Panicked p, tr1)"
      using pf by simp
    from Worker_loop_panicked [OF this, of closed rest] Cons.prems show ?thesis
      by auto
  next
    case Blocked
    then show ?thesis
      using pf parseFile_not_blocked [of ev os fn tr] by simp
  qed
qed

text \<open>
  A run that returns an error stopped at the key whose \<open>parseFile\<close> returned that
  error: the keys before it are deleted, that key is fetched and not deleted, the keys
  after it stay in the buffer.
\<close>

lemma Worker_loop_stopped_early:
  "Worker_loop ev os closed keys tr = (Returned (Some err), left, tr') \<Longrightarrow>
   \<exists>done fn t. keys = done @ fn # left \<and>
     fst (parseFile ev os fn t) = Returned (Some err) \<and>
     tr' = snd (parseFile ev os fn t) @ [LoggerError ''failed to ship file'' fn err] \<and>
     deleted_keys tr' = deleted_keys tr @ done \<and>
     fetched_keys tr' = fetched_keys tr @ done @ [fn]"
proof (induction keys arbitrary: tr)
  case Nil
  then show ?case by (auto split: if_splits)
next
  case (Cons fn rest)
  obtain o1 tr1 where pf: "parseFile ev os fn tr = (o1, tr1)"
    by (cases "parseFile ev os fn tr")
  show ?case
  proof (cases o1)
    case (Returned r)
    show ?thesis
    proof (cases r)
      case None
      let ?tr3 = "tr1 @ DeleteObject (BucketName os) fn #
        (case delete_reply ev (tr1 @ [DeleteObject (BucketName os) fn]) of
           None \<Rightarrow> []
         | Some e \<Rightarrow> [LoggerError ''failed to delete file'' fn e])"
      have pf': "parseFile ev os fn tr = (Returned None, tr1)"
        using pf Returned None by simp
      have "Worker_loop ev os closed rest ?tr3 = (Returned (Some err), left, tr')"
        using Cons.prems by (simp only: Worker_loop_shipped [OF pf'])
      from Cons.IH [OF this] obtain done' fn' t where ih:
        "rest = done' @ fn' # left"
        "fst (parseFile ev os fn' t) = Returned (Some err)"
        "tr' = snd (parseFile ev os fn' t) @ [LoggerError ''failed to ship file'' fn' err]"
        "deleted_keys tr' = deleted_keys ?tr3 @ done'"
        "fetched_keys tr' = fetched_keys ?tr3 @ done' @ [fn']"
        by blast
      have d: "deleted_keys tr1 = deleted_keys tr"
        using parseFile_deleted_keys [of ev os fn tr] pf' by simp
      have f: "fetched_keys tr1 = fetched_keys tr @ [fn]"
        by (rule parseFile_returned_fetched [OF pf'])
      have "fn # rest = (fn # done') @ fn' # left"
        using ih(1) by simp
      moreover have "deleted_keys tr' = deleted_keys tr @ (fn # done')"
        using ih(4) by (simp add: deleted_keys_after_delete d)
      moreover have "fetched_keys tr' = fetched_keys tr @ (fn # done') @ [fn']"
        using ih(5) by (simp add: fetched_keys_after_delete f)
      ultimately show ?thesis
        using ih(2,3) by blast
    next
      case (Some e)
      then have pf': "parseFile ev os fn tr = (Returned (Some e), tr1)"
        using pf Returned by simp
      have "(Returned (Some e), rest, tr1 @ [LoggerError ''failed to ship file'' fn e]) =
          (Returned (Some err), left, tr')"
        using Cons.prems unfolding Worker_loop_failed [OF pf'] .
      then have e: "e = err" and left: "left = rest"
        and tr': "tr' = tr1 @ [LoggerError ''failed to ship file'' fn err]"
        by auto
      have d: "deleted_keys tr1 = deleted_keys tr"
        using parseFile_deleted_keys [of ev os fn tr] pf' by simp
      have f: "fetched_keys tr1 = fetched_keys tr @ [fn]"
        by (rule parseFile_returned_fetched [OF pf'])
      have "fn # rest = [] @ fn # left"
        using left by simp
      moreover have "fst (parseFile ev os fn tr) = Returned (Some err)"
        using pf' e by simp
      moreover have "tr' = snd (parseFile ev os fn tr) @ [LoggerError ''failed to ship file'' fn err]"
        using pf' tr' by simp
      moreover have "deleted_keys tr' = deleted_keys tr @ []"
        using tr' d by (simp add: deleted_keys_ship_error)
      moreover have "fetched_keys tr' = fetched_keys tr @ [] @ [fn]"
        using tr' f by (simp add: fetched_keys_ship_error)
      ultimately show ?thesis
        by blast
    qed
  next
    case (Panicked p)
    then have "parseFile ev os fn tr = (Panicked p, tr1)"
      using pf by simp
    from Worker_loop_panicked [OF this, of closed rest] Cons.prems show ?thesis
      by simp
  next
    case Blocked
    then show ?thesis
      using pf parseFile_not_blocked [of ev os fn tr] by simp
  qed
qed

lemma Worker_inv: "stop_inv s \<Longrightarrow> stop_inv (fst (snd (Worker ev s tr)))"
  by (simp add: Worker_def stop_inv_def split: prod.splits)

text \<open>
  C10: \<open>parseFile\<close> returns (with or without an error) exactly when the key has at
  least two segments between slashes. With fewer, which is the case of a key with no
  slash, reading the second segment is out of range and the call panics before any
  call to a collaborator; with two or more, both reads are in range.
\<close>

theorem parseFile_needs_two_segments:
  "((\<exists>r. fst (parseFile ev os fn tr) = Returned r) \<longleftrightarrow> 2 \<le> length (Split fn (CHR ''/''))) \<and>
   (length (Split fn (CHR ''/'')) < 2 \<longrightarrow>
      index_at (Split fn (CHR ''/'')) 1 = Inl (IndexOutOfRange 1 (length (Split fn (CHR ''/'')))) \<and>
      parseFile ev os fn tr = (Panicked (IndexOutOfRange 1 (length (Split fn (CHR ''/'')))), tr)) \<and>
   (2 \<le> length (Split fn (CHR ''/'')) \<longrightarrow>
      index_at (Split fn (CHR ''/'')) 0 = Inr (Split fn (CHR ''/'') ! 0) \<and>
      index_at (Split fn (CHR ''/'')) 1 = Inr (Split fn (CHR ''/'') ! 1)) \<and>
   (CHR ''/'' \<notin> set fn \<longleftrightarrow> length (Split fn (CHR ''/'')) < 2)"
proof (intro conjI impI)
  show "(\<exists>r. fst (parseFile ev os fn tr) = Returned r) \<longleftrightarrow> 2 \<le> length (Split fn (CHR ''/''))"
    by (rule parseFile_total_iff)
next
  assume short: "length (Split fn (CHR ''/'')) < 2"
  then have "length (Split fn (CHR ''/'')) = 1"
    using Split_length [of fn "CHR ''/''"] by simp
  then show "index_at (Split fn (CHR ''/'')) 1 = Inl (IndexOutOfRange 1 (length (Split fn (CHR ''/''))))"
    by (simp add: index_at_def)
next
  assume short: "length (Split fn (CHR ''/'')) < 2"
  then have one: "length (Split fn (CHR ''/'')) = 1"
    using Split_length [of fn "CHR ''/''"] by simp
  from short have "CHR ''/'' \<notin> set fn"
    by (rule iffD1 [OF Split_short_iff])
  then have "parseFile_labels os fn = Inl (IndexOutOfRange 1 1)"
    by (rule parseFile_labels_short)
  then have "parseFile ev os fn tr = (Panicked (IndexOutOfRange 1 1), tr)"
    by (rule parseFile_panic_trace)
  then show "parseFile ev os fn tr = (Panicked (IndexOutOfRange 1 (length (Split fn (CHR ''/'')))), tr)"
    by (simp only: one)
next
  show "index_at (Split fn (CHR ''/'')) 0 = Inr (Split fn (CHR ''/'') ! 0)"
    by (simp add: index_at_def Split_hd_nonempty)
next
  assume "2 \<le> length (Split fn (CHR ''/''))"
  then show "index_at (Split fn (CHR ''/'')) 1 = Inr (Split fn (CHR ''/'') ! 1)"
    by (simp add: index_at_def)
next
  show "CHR ''/'' \<notin> set fn \<longleftrightarrow> length (Split fn (CHR ''/'')) < 2"
    by (rule Split_short_iff [symmetric])
qed

theorem parseFile_needs_two_segments_witness:
  "parseFile (env_failing (ClientError ''timeout'')) example_opts ''orphan.gz'' [] =
     (Panicked (IndexOutOfRange 1 1), []) \<and>
   index_at (Split example_key (CHR ''/'')) 0 = Inr ''teamA'' \<and>
   index_at (Split example_key (CHR ''/'')) 1 = Inr ''dist123'' \<and>
   (\<exists>r. fst (parseFile (env_failing (ClientError ''timeout'')) example_opts example_key []) = Returned r)"
  using parseFile_needs_two_segments
      [of "env_failing (ClientError ''timeout'')" example_opts "''orphan.gz''" "[]"]
    parseFile_needs_two_segments
      [of "env_failing (ClientError ''timeout'')" example_opts example_key "[]"]
  by (simp add: Split_def example_key_def)

text \<open>
  C6: for a key \<open>ns/sid/rest\<close> (no slash inside \<open>ns\<close> or \<open>sid\<close>) the label set
  built for the file, which is the one the batch is opened with, is the map of
  \<open>namespace\<close>, \<open>cloudfront\<close>, \<open>cluster\<close> and \<open>index\<close> overridden by the configured
  labels: a key of the configured labels keeps its configured value, any other key
  has the derived one.
\<close>

theorem labels_static_override:
  assumes "CHR ''/'' \<notin> set ns" and "CHR ''/'' \<notin> set sid"
  shows "parseFile_labels os (ns @ ''/'' @ sid @ ''/'' @ rest) =
      Inr ([''namespace'' \<mapsto> ns, ''cloudfront'' \<mapsto> sid, ''cluster'' \<mapsto> ClusterName os,
            ''index'' \<mapsto> ClusterName os @ ''-'' @ ns] ++ Labels os) \<and>
    batches_created (snd (parseFile ev os (ns @ ''/'' @ sid @ ''/'' @ rest) tr)) =
      batches_created tr @
        [[''namespace'' \<mapsto> ns, ''cloudfront'' \<mapsto> sid, ''cluster'' \<mapsto> ClusterName os,
          ''index'' \<mapsto> ClusterName os @ ''-'' @ ns] ++ Labels os] \<and>
    (\<forall>k. ([''namespace'' \<mapsto> ns, ''cloudfront'' \<mapsto> sid, ''cluster'' \<mapsto> ClusterName os,
           ''index'' \<mapsto> ClusterName os @ ''-'' @ ns] ++ Labels os) k =
         (case Labels os k of
            Some v \<Rightarrow> Some v
          | None \<Rightarrow> [''namespace'' \<mapsto> ns, ''cloudfront'' \<mapsto> sid, ''cluster'' \<mapsto> ClusterName os,
                     ''index'' \<mapsto> ClusterName os @ ''-'' @ ns] k))"
proof -
  have "Split (ns @ CHR ''/'' # sid @ CHR ''/'' # rest) (CHR ''/'') =
      ns # sid # Split rest (CHR ''/'')"
    using assms by (simp add: Split_segment)
  then have l: "parseFile_labels os (ns @ ''/'' @ sid @ ''/'' @ rest) =
      Inr ([''namespace'' \<mapsto> ns, ''cloudfront'' \<mapsto> sid, ''cluster'' \<mapsto> ClusterName os,
            ''index'' \<mapsto> ClusterName os @ ''-'' @ ns] ++ Labels os)"
    by (simp add: parseFile_labels_def index_at_def)
  have b: "batches_created (snd (parseFile ev os (ns @ ''/'' @ sid @ ''/'' @ rest) tr)) =
      batches_created tr @
        [[''namespace'' \<mapsto> ns, ''cloudfront'' \<mapsto> sid, ''cluster'' \<mapsto> ClusterName os,
          ''index'' \<mapsto> ClusterName os @ ''-'' @ ns] ++ Labels os]"
    by (rule parseFile_batches_created [OF l])
  have "\<forall>k. ([''namespace'' \<mapsto> ns, ''cloudfront'' \<mapsto> sid, ''cluster'' \<mapsto> ClusterName os,
           ''index'' \<mapsto> ClusterName os @ ''-'' @ ns] ++ Labels os) k =
         (case Labels os k of
            Some v \<Rightarrow> Some v
          | None \<Rightarrow> [''namespace'' \<mapsto> ns, ''cloudfront'' \<mapsto> sid, ''cluster'' \<mapsto> ClusterName os,
                     ''index'' \<mapsto> ClusterName os @ ''-'' @ ns] k)"
    by (simp add: map_add_def split: option.splits)
  with l b show ?thesis
    by (intro conjI)
qed

theorem labels_static_override_witness:
  "(case parseFile_labels example_opts example_key of
      Inl p \<Rightarrow> False
    | Inr l \<Rightarrow> l ''namespace'' = Some ''teamA'' \<and> l ''cloudfront'' = Some ''dist123'' \<and>
        l ''index'' = Some ''prod-teamA'' \<and> l ''cluster'' = Some ''blue'' \<and>
        l ''job'' = Some ''cloudfront'' \<and> l ''other'' = None)"
  using labels_static_override [of "''teamA''" "''dist123''" example_opts "''2024010100.log.gz''"
      "env_failing (ClientError ''timeout'')" "[]"]
  by (simp add: example_key_def example_opts_def map_add_def)

text \<open>
  C9: the handler of \<open>Metrics\<close> leaves the parser (queue, stop flag, options) as it
  was; the content type is \<open>text/plain; charset=utf-8\<close>; the body is the metric name,
  a space, the decimal numeral of the number of keys in the queue's buffer, and a
  line feed, with no other line feed in it.
\<close>

theorem Metrics_reads_queue_length:
  "fst (Metrics s) = s \<and>
   content_type (snd (Metrics s)) = ''text/plain; charset=utf-8'' \<and>
   resp_body (snd (Metrics s)) =
     ''cloudfront_logs_shipper_queue_length '' @ decimal (length (buf (queue s))) @ [CHR 0x0A] \<and>
   decimal_value (decimal (length (buf (queue s)))) = length (buf (queue s)) \<and>
   CHR 0x0A \<notin> set (''cloudfront_logs_shipper_queue_length '' @ decimal (length (buf (queue s))))"
  using decimal_no_newline [of "length (buf (queue s))"]
  by (simp add: Metrics_def decimal_value_decimal)

text \<open>
  C8: on a parser whose channel is closed exactly when \<open>stop\<close> is set (true of every
  parser made by \<open>NewParser\<close> and kept by \<open>Stop\<close>), \<open>n \<ge> 1\<close> calls of \<open>Stop\<close> in a
  row end as one call does: no panic, \<open>stop\<close> set, the channel closed, its buffer and
  capacity and the options untouched. Every call after the first returns at the test
  of \<open>stop\<close> and changes nothing.
\<close>

theorem Stop_idempotent:
  assumes "stop_inv s" and "1 \<le> n"
  shows "Stop_times n s = Stop s \<and>
    Stop s = Returned (s\<lparr>stop := True, queue := (queue s)\<lparr>chan_closed := True\<rparr>\<rparr>) \<and>
    Stop (s\<lparr>stop := True, queue := (queue s)\<lparr>chan_closed := True\<rparr>\<rparr>) =
      Returned (s\<lparr>stop := True, queue := (queue s)\<lparr>chan_closed := True\<rparr>\<rparr>)"
proof -
  let ?s' = "s\<lparr>stop := True, queue := (queue s)\<lparr>chan_closed := True\<rparr>\<rparr>"
  have r: "Stop s = Returned ?s'"
    by (rule Stop_result [OF assms(1)])
  obtain m where n: "n = Suc m"
    using assms(2) by (cases n) auto
  have "Stop_times m ?s' = Returned ?s'"
    by (rule Stop_times_stopped) simp
  then have "Stop_times n s = Returned ?s'"
    using r n by simp
  then show ?thesis
    using r by (simp add: Stop_stopped)
qed

theorem Stop_idempotent_witness:
  "Stop_times 3 example_parser = Stop example_parser \<and>
   Stop example_parser =
     Returned \<lparr>opts = example_opts,
       queue = \<lparr>buf = [''teamB/d9/a.gz''], cap = 20, chan_closed = True\<rparr>, stop = True\<rparr>"
  using Stop_idempotent [of example_parser 3]
  by (simp add: example_parser_def stop_inv_def)

text \<open>
  C7: run on a parser whose channel is closed exactly when \<open>stop\<close> is set, \<open>Scan\<close>
  makes one list request, with \<open>MaxKeys = 100\<close>. If the request fails, \<open>Scan\<close> returns
  that very error and the parser is unchanged. If it succeeds and the parser is stopped,
  nothing is enqueued. If it succeeds and the parser is not stopped, the non-nil keys of
  the listing are appended to the queue in the order listed and nothing else is: all of
  them when the buffer has room, after which \<open>Scan\<close> returns nil; otherwise as many as
  fit, and \<open>Scan\<close> waits in the send of the next one.
\<close>

theorem Scan_enqueues_listed_keys:
  assumes "stop_inv s"
  shows "list_requests (snd (snd (Scan ev s tr))) = list_requests tr @ [100] \<and>
    (case list_reply ev (tr @ [ListObjectsV2 (BucketName (opts s)) 100]) of
       Inl err \<Rightarrow>
         Scan ev s tr = (Returned (Some err), s, tr @ [ListObjectsV2 (BucketName (opts s)) 100])
     | Inr contents \<Rightarrow>
         if stop s then
           Scan ev s tr = (Returned None, s, tr @ [ListObjectsV2 (BucketName (opts s)) 100])
         else if length (listed_keys contents) \<le> cap (queue s) - length (buf (queue s)) then
           Scan ev s tr =
             (Returned None,
              s\<lparr>queue := (queue s)\<lparr>buf := buf (queue s) @ listed_keys contents\<rparr>\<rparr>,
              tr @ [ListObjectsV2 (BucketName (opts s)) 100] @
                (if listed_keys contents = [] then []
                 else [LoggerInfo ''new files'' (length (listed_keys contents))
                         (length (buf (queue s)) + length (listed_keys contents))]))
         else
           Scan ev s tr =
             (Blocked,
              s\<lparr>queue := (queue s)\<lparr>buf := buf (queue s) @
                  take (cap (queue s) - length (buf (queue s))) (listed_keys contents)\<rparr>\<rparr>,
              tr @ [ListObjectsV2 (BucketName (opts s)) 100]))"
proof (cases "list_reply ev (tr @ [ListObjectsV2 (BucketName (opts s)) 100])")
  case (Inl err)
  then show ?thesis
    by (simp add: Scan_def Let_def list_requests_def)
next
  case (Inr contents)
  show ?thesis
  proof (cases "stop s")
    case True
    then show ?thesis
      using Inr by (simp add: Scan_def Let_def Scan_loop_stopped list_requests_def)
  next
    case False
    then have "\<not> chan_closed (queue s)"
      using assms by (simp add: stop_inv_def)
    then show ?thesis
      using Inr False by (simp add: Scan_def Let_def Scan_loop_open list_requests_def)
  qed
qed

theorem Scan_enqueues_listed_keys_witness:
  "Scan (env_serving (Lines [] None)
       [\<lparr>Key = Some ''teamA/dist123/x.gz''\<rparr>, \<lparr>Key = None\<rparr>, \<lparr>Key = Some ''teamA/dist123/y.gz''\<rparr>])
     example_parser [] =
     (Returned None,
      example_parser\<lparr>queue := \<lparr>buf = [''teamB/d9/a.gz'', ''teamA/dist123/x.gz'', ''teamA/dist123/y.gz''],
        cap = 20, chan_closed = False\<rparr>\<rparr>,
      [ListObjectsV2 ''logs'' 100, LoggerInfo ''new files'' 2 3]) \<and>
   Scan (env_failing (ClientError ''timeout'')) example_parser [] =
     (Returned (Some (ClientError ''timeout'')), example_parser, [ListObjectsV2 ''logs'' 100])"
  using Scan_enqueues_listed_keys [of example_parser
      "env_serving (Lines [] None)
         [\<lparr>Key = Some ''teamA/dist123/x.gz''\<rparr>, \<lparr>Key = None\<rparr>, \<lparr>Key = Some ''teamA/dist123/y.gz''\<rparr>]"
      "[]"]
    Scan_enqueues_listed_keys [of example_parser "env_failing (ClientError ''timeout'')" "[]"]
  by (simp add: example_parser_def example_opts_def env_serving_def env_failing_def stop_inv_def
      listed_keys_def map_filter_simps)

text \<open>
  What the line scan does with the lines that are no data lines. While the header fields
  are empty every line that is no header directive is passed over, and a line that starts
  with \<open>#\<close> and is no header directive is passed over wherever it stands: the scan
  goes on as if the line were not in the file, so no record and no error comes of it. A
  header directive sets the header fields to the tokens of its line after the first
  token; when \<open>#Fields:\<close> is followed by white space or by the end of the line,
  that first token is \<open>#Fields:\<close> and the header fields are the tokens of the rest
  of the line.
\<close>

lemma scan_parses_only_under_header:
  "(list_all (\<lambda>l. \<not> HasPrefix l ''#Fields:'') pre \<longrightarrow>
      scan_lines ev [] (pre @ rest) tr = scan_lines ev [] rest tr) \<and>
   (HasPrefix c ''#'' \<and> \<not> HasPrefix c ''#Fields:'' \<longrightarrow>
      scan_lines ev h (pre @ c # rest) tr = scan_lines ev h (pre @ rest) tr) \<and>
   (HasPrefix hl ''#Fields:'' \<longrightarrow>
      scan_lines ev h (hl # rest) tr = scan_lines ev (tl (Fields hl)) rest tr) \<and>
   (r = [] \<or> 0 < space_width r \<longrightarrow>
      HasPrefix (''#Fields:'' @ r) ''#Fields:'' \<and>
      Fields (''#Fields:'' @ r) = ''#Fields:'' # Fields r \<and>
      scan_lines ev h ((''#Fields:'' @ r) # rest) tr = scan_lines ev (Fields r) rest tr)"
proof (intro conjI impI)
  assume "list_all (\<lambda>l. \<not> HasPrefix l ''#Fields:'') pre"
  then show "scan_lines ev [] (pre @ rest) tr = scan_lines ev [] rest tr"
    by (rule scan_lines_skip_unpopulated)
next
  assume "HasPrefix c ''#'' \<and> \<not> HasPrefix c ''#Fields:''"
  then show "scan_lines ev h (pre @ c # rest) tr = scan_lines ev h (pre @ rest) tr"
    using scan_lines_skip_comment [of c ev h pre rest tr] by blast
next
  assume "HasPrefix hl ''#Fields:''"
  then show "scan_lines ev h (hl # rest) tr = scan_lines ev (tl (Fields hl)) rest tr"
    by (rule scan_lines_header)
next
  show p: "HasPrefix (''#Fields:'' @ r) ''#Fields:''"
    by (simp add: HasPrefix_def)
  assume r: "r = [] \<or> 0 < space_width r"
  then show f: "Fields (''#Fields:'' @ r) = ''#Fields:'' # Fields r"
    by (rule Fields_directive_token)
  from scan_lines_header [OF p, of ev h rest tr] f
  show "scan_lines ev h ((''#Fields:'' @ r) # rest) tr = scan_lines ev (Fields r) rest tr"
    by simp
qed

lemma scan_parses_only_under_header_example:
  "scan_lines (env_failing (ClientError ''down'')) []
     [''#Version: 1.0'', ''stray line'', ''#Fields: date time c-ip'', ''#note''] [] =
     (Returned None, [''date'', ''time'', ''c-ip''], []) \<and>
   scan_lines (env_failing (ClientError ''down'')) [''x'', ''y'', ''z'']
     [''#Version: 1.0'', ''#note'', ''#Fields: date time c-ip'', ''#note''] [] =
     (Returned None, [''date'', ''time'', ''c-ip''], []) \<and>
   Fields ''#Fields: date time c-ip'' = [''#Fields:'', ''date'', ''time'', ''c-ip'']"
  using scan_parses_only_under_header
    [where pre = "[''#Version: 1.0'', ''stray line'']"
       and rest = "[''#Fields: date time c-ip'', ''#note'']"
       and ev = "env_failing (ClientError ''down'')" and tr = "[]"
       and c = "''#note''" and h = "[''x'', ''y'', ''z'']"
       and hl = "''#Fields: date time c-ip''" and r = "'' date time c-ip''"]
    scan_parses_only_under_header
    [where pre = "[''#Version: 1.0'']"
       and rest = "[''#Fields: date time c-ip'', ''#note'']"
       and ev = "env_failing (ClientError ''down'')" and tr = "[]"
       and c = "''#note''" and h = "[''x'', ''y'', ''z'']"
       and hl = "''#Fields: date time c-ip''" and r = "'' date time c-ip''"]
  by (simp add: HasPrefix_def Fields_def asciiSpace_def slice_from_def)

text \<open>
  C5: the clause on the header directive fails for a directive with no white space after
  the colon. The line \<open>#Fields:date time\<close> starts with \<open>#Fields:\<close>, so it is
  taken as the header directive, and the tokens that follow \<open>#Fields:\<close> in it are
  \<open>date\<close> and \<open>time\<close>. The scan takes the tokens of the whole line and drops the
  first, which here is \<open>#Fields:date\<close>: the header fields become \<open>time\<close> alone,
  and the data line \<open>2024-01-01 00:00:00\<close> after it is refused with a field count
  mismatch, expected 1, got 2. (The comment in the source says that the header starts
  after \<open>#Fields:\<close>.)
\<close>

theorem glued_directive_drops_first_field:
  "HasPrefix ''#Fields:date time'' ''#Fields:'' \<and>
   Fields ''date time'' = [''date'', ''time''] \<and>
   Fields ''#Fields:date time'' = [''#Fields:date'', ''time''] \<and>
   scan_lines (env_serving (Lines [] None) []) [] [''#Fields:date time''] [] =
     (Returned None, [''time''], []) \<and>
   scan_lines (env_serving (Lines [] None) []) []
       [''#Fields:date time'', ''2024-01-01 00:00:00''] [] =
     (Returned (Some (Wrap ''error parsing data line: '' (FieldCountMismatch 1 2))), [''time''], [])"
  by (simp add: HasPrefix_def Fields_def asciiSpace_def slice_from_def parseDataLine_def)

lemma example_labels_built: "parseFile_labels example_opts example_key = Inr example_labels"
  by (simp add: parseFile_labels_def Split_def index_at_def example_opts_def example_key_def
      example_labels_def)

text \<open>
  C4, as the code has it: when the fetch fails with an error whose text contains
  \<open>NoSuchKey\<close>, \<open>parseFile\<close> returns nil; the batch has been created before the fetch
  (so the calls are: open the batch, fetch, log at debug level), but no line is added to
  it and it is not flushed. When the fetch fails with any other error, \<open>parseFile\<close>
  returns that error wrapped, again with nothing added or flushed.
\<close>

theorem missing_object_is_skipped:
  assumes "parseFile_labels os fn = Inr l"
    and "get_reply ev (tr @ [NewBatch l, GetObject (BucketName os) fn]) = Inl err"
  shows "(Contains (Error_text err) ''NoSuchKey'' \<longrightarrow>
        parseFile ev os fn tr =
          (Returned None,
           tr @ [NewBatch l, GetObject (BucketName os) fn,
                 LoggerDebug ''skipping non-existent file'' fn])) \<and>
    (\<not> Contains (Error_text err) ''NoSuchKey'' \<longrightarrow>
        parseFile ev os fn tr =
          (Returned (Some (Wrap (''failed to get object '' @ fn @ '': '') err)),
           tr @ [NewBatch l, GetObject (BucketName os) fn])) \<and>
    batches_created (snd (parseFile ev os fn tr)) = batches_created tr @ [l] \<and>
    added (snd (parseFile ev os fn tr)) = added tr \<and>
    flushes (snd (parseFile ev os fn tr)) = flushes tr"
proof (cases "Contains (Error_text err) ''NoSuchKey''")
  case True
  then have "parseFile ev os fn tr =
      (Returned None,
       tr @ [NewBatch l, GetObject (BucketName os) fn, LoggerDebug ''skipping non-existent file'' fn])"
    using assms by (simp add: parseFile_def Let_def)
  then show ?thesis
    using True by (simp add: batches_created_def added_def flushes_def)
next
  case False
  then have "parseFile ev os fn tr =
      (Returned (Some (Wrap (''failed to get object '' @ fn @ '': '') err)),
       tr @ [NewBatch l, GetObject (BucketName os) fn])"
    using assms by (simp add: parseFile_def Let_def)
  then show ?thesis
    using False by (simp add: batches_created_def added_def flushes_def)
qed

theorem missing_object_is_skipped_witness:
  "parseFile (env_failing error_no_such_key) example_opts example_key [] =
     (Returned None,
      [NewBatch example_labels, GetObject ''logs'' example_key,
       LoggerDebug ''skipping non-existent file'' example_key]) \<and>
   parseFile (env_failing (ClientError ''timeout'')) example_opts example_key [] =
     (Returned (Some (Wrap (''failed to get object '' @ example_key @ '': '') (ClientError ''timeout''))),
      [NewBatch example_labels, GetObject ''logs'' example_key])"
  using missing_object_is_skipped [of example_opts example_key example_labels
      "env_failing error_no_such_key" "[]" error_no_such_key]
    missing_object_is_skipped [of example_opts example_key example_labels
      "env_failing (ClientError ''timeout'')" "[]" "ClientError ''timeout''"]
    example_labels_built
  by (simp add: env_failing_def error_no_such_key_def example_opts_def)

text \<open>
  C4 as stated fails: for a key that is gone a batch is created all the same, since
  \<open>loki.NewBatch\<close> is called before \<open>GetObject\<close>.
\<close>

theorem missing_object_batch_counterexample:
  "fst (parseFile (env_failing error_no_such_key) example_opts example_key []) = Returned None \<and>
   batches_created (snd (parseFile (env_failing error_no_such_key) example_opts example_key [])) =
     [example_labels]"
  using example_labels_built
  by (simp add: parseFile_def Let_def env_failing_def error_no_such_key_def example_opts_def
      batches_created_def)





lemma flushes_adds_only: "flushes (tr @ [NewBatch l, GetObject b fn] @ map BatchAdd es) = flushes tr"
  by (simp add: flushes_append flushes_adds) (simp add: flushes_def)

lemma deleted_keys_adds_only:
  "deleted_keys (tr @ [NewBatch l, GetObject b fn] @ map BatchAdd es) = deleted_keys tr"
  by (simp add: deleted_keys_append deleted_keys_adds) (simp add: deleted_keys_def)

text \<open>
  C2: let the scan reach a line \<open>bad\<close> with header fields \<open>h\<close> in force, the lines
  \<open>pre\<close> before it having been scanned without an error, and let \<open>bad\<close> be a data line
  (\<open>h\<close> not empty, no \<open>#\<close> in front) whose number of tokens is not the length of \<open>h\<close>.
  Then \<open>parseFile\<close> returns the field count error of that line, wrapped, and makes no
  call after the ones made for \<open>pre\<close>: nothing is added for \<open>bad\<close> or any later line
  and the batch is not flushed. The worker that took the key returns that error, logs
  it, and makes no delete request; the keys behind it stay in the queue.
\<close>

theorem short_line_aborts_file:
  assumes "parseFile_labels os fn = Inr l"
    and "get_reply ev (tr @ [NewBatch l, GetObject (BucketName os) fn]) =
           Inr (Lines (pre @ bad # post) scan_err)"
    and "scan_lines ev [] pre (tr @ [NewBatch l, GetObject (BucketName os) fn]) =
           (Returned None, h, tr3)"
    and "h \<noteq> []" and "\<not> HasPrefix bad ''#''" and "length (Fields bad) \<noteq> length h"
  shows "parseFile ev os fn tr =
      (Returned (Some (Wrap ''error parsing data line: ''
         (FieldCountMismatch (length h) (length (Fields bad))))), tr3) \<and>
    (\<exists>es. tr3 = tr @ [NewBatch l, GetObject (BucketName os) fn] @ map BatchAdd es) \<and>
    flushes tr3 = flushes tr \<and>
    Worker_loop ev os closed (fn # rest) tr =
      (Returned (Some (Wrap ''error parsing data line: ''
         (FieldCountMismatch (length h) (length (Fields bad))))), rest,
       tr3 @ [LoggerError ''failed to ship file'' fn
         (Wrap ''error parsing data line: ''
            (FieldCountMismatch (length h) (length (Fields bad))))]) \<and>
    deleted_keys (snd (snd (Worker_loop ev os closed (fn # rest) tr))) = deleted_keys tr"
proof -
  let ?tr2 = "tr @ [NewBatch l, GetObject (BucketName os) fn]"
  let ?err = "Wrap ''error parsing data line: ''
      (FieldCountMismatch (length h) (length (Fields bad)))"
  have c: "\<not> is_comment bad"
    using assms(5) by (simp add: is_comment_def HasPrefix_def)
  have "scan_lines ev [] (pre @ bad # post) ?tr2 = scan_lines ev h (bad # post) tr3"
    by (simp only: scan_lines_append assms(3)) simp
  also have "\<dots> = (Returned (Some ?err), h, tr3)"
    by (rule scan_lines_mismatch [OF assms(4) c assms(6)])
  finally have sc: "scan_lines ev [] (pre @ bad # post) ?tr2 = (Returned (Some ?err), h, tr3)" .
  have pf: "parseFile ev os fn tr = (Returned (Some ?err), tr3)"
    using assms(1,2) sc by (simp add: parseFile_def Let_def)
  obtain es where "snd (snd (scan_lines ev [] pre ?tr2)) = ?tr2 @ map BatchAdd es"
    using scan_lines_adds_only by blast
  then have es: "tr3 = tr @ [NewBatch l, GetObject (BucketName os) fn] @ map BatchAdd es"
    using assms(3) by simp
  have f: "flushes tr3 = flushes tr"
    unfolding es by (rule flushes_adds_only)
  have d: "deleted_keys tr3 = deleted_keys tr"
    unfolding es by (rule deleted_keys_adds_only)
  have w: "Worker_loop ev os closed (fn # rest) tr =
      (Returned (Some ?err), rest, tr3 @ [LoggerError ''failed to ship file'' fn ?err])"
    by (rule Worker_loop_failed [OF pf])
  have "deleted_keys (snd (snd (Worker_loop ev os closed (fn # rest) tr))) = deleted_keys tr"
    unfolding w by (simp add: deleted_keys_ship_error d)
  with pf es f w show ?thesis
    by blast
qed

theorem short_line_aborts_file_witness:
  "parseFile (env_serving (Lines file_short_line None) []) example_opts example_key [] =
     (Returned (Some (Wrap ''error parsing data line: '' (FieldCountMismatch 3 2))),
      [NewBatch example_labels, GetObject ''logs'' example_key,
       BatchAdd [''date'' \<mapsto> ''2024-01-01'', ''time'' \<mapsto> ''00:00:00'', ''c-ip'' \<mapsto> ''1.2.3.4'']]) \<and>
   Worker_loop (env_serving (Lines file_short_line None) []) example_opts True
       [example_key, ''teamB/d9/a.gz''] [] =
     (Returned (Some (Wrap ''error parsing data line: '' (FieldCountMismatch 3 2))),
      [''teamB/d9/a.gz''],
      [NewBatch example_labels, GetObject ''logs'' example_key,
       BatchAdd [''date'' \<mapsto> ''2024-01-01'', ''time'' \<mapsto> ''00:00:00'', ''c-ip'' \<mapsto> ''1.2.3.4''],
       LoggerError ''failed to ship file'' example_key
         (Wrap ''error parsing data line: '' (FieldCountMismatch 3 2))])"
  using short_line_aborts_file [of example_opts example_key example_labels
      "env_serving (Lines file_short_line None) []" "[]"
      "[''#Version: 1.0'', ''#Fields: date time c-ip'', ''2024-01-01 00:00:00 1.2.3.4'']"
      "''2024-01-01 00:00:01''" "[''2024-01-01 00:00:02 1.2.3.5'']" None
      "[''date'', ''time'', ''c-ip'']"
      "[NewBatch example_labels, GetObject ''logs'' example_key,
        BatchAdd [''date'' \<mapsto> ''2024-01-01'', ''time'' \<mapsto> ''00:00:00'', ''c-ip'' \<mapsto> ''1.2.3.4'']]"
      True "[''teamB/d9/a.gz'']"]
    example_labels_built
  by (simp add: env_serving_def file_short_line_def HasPrefix_def parseDataLine_def index_at_def
      slice_from_def Fields_def asciiSpace_def example_opts_def)

text \<open>
  C3: one turn of the worker loop on the key \<open>fn\<close>. When \<open>parseFile\<close> returns nil the
  worker makes the delete request for \<open>fn\<close> and goes on with the next key whatever the
  request answers, a failed request adding only a log call. When \<open>parseFile\<close> returns an
  error the worker logs it and returns that error: no delete request, the keys behind
  \<open>fn\<close> left in the queue. Over a whole run: a run that ends on an empty buffer has
  requested the deletion of every key, in order, and fetched each once; a run that
  returns an error has requested the deletion of exactly the keys before the one whose
  \<open>parseFile\<close> failed, and has fetched that one once and not deleted it.
\<close>

theorem Worker_deletes_iff_shipped:
  "(fst (parseFile ev os fn t) = Returned None \<longrightarrow>
      Worker_loop ev os closed (fn # rest) t =
        Worker_loop ev os closed rest
          (snd (parseFile ev os fn t) @ DeleteObject (BucketName os) fn #
            (case delete_reply ev (snd (parseFile ev os fn t) @ [DeleteObject (BucketName os) fn]) of
               None \<Rightarrow> []
             | Some e \<Rightarrow> [LoggerError ''failed to delete file'' fn e]))) \<and>
   (fst (parseFile ev os fn t) = Returned (Some err) \<longrightarrow>
      Worker_loop ev os closed (fn # rest) t =
        (Returned (Some err), rest,
         snd (parseFile ev os fn t) @ [LoggerError ''failed to ship file'' fn err]) \<and>
      deleted_keys (snd (snd (Worker_loop ev os closed (fn # rest) t))) = deleted_keys t) \<and>
   (fst (Worker_loop ev os closed keys tr) = Returned None \<or>
    fst (Worker_loop ev os closed keys tr) = Blocked \<longrightarrow>
      fst (snd (Worker_loop ev os closed keys tr)) = [] \<and>
      deleted_keys (snd (snd (Worker_loop ev os closed keys tr))) = deleted_keys tr @ keys \<and>
      fetched_keys (snd (snd (Worker_loop ev os closed keys tr))) = fetched_keys tr @ keys) \<and>
   (fst (Worker_loop ev os closed keys tr) = Returned (Some err') \<longrightarrow>
      (\<exists>done fn' t'. keys = done @ fn' # fst (snd (Worker_loop ev os closed keys tr)) \<and>
         fst (parseFile ev os fn' t') = Returned (Some err') \<and>
         deleted_keys (snd (snd (Worker_loop ev os closed keys tr))) = deleted_keys tr @ done \<and>
         fetched_keys (snd (snd (Worker_loop ev os closed keys tr))) =
           fetched_keys tr @ done @ [fn']))"
proof (intro conjI impI)
  assume "fst (parseFile ev os fn t) = Returned None"
  then have "parseFile ev os fn t = (Returned None, snd (parseFile ev os fn t))"
    by (cases "parseFile ev os fn t") simp
  then show "Worker_loop ev os closed (fn # rest) t =
      Worker_loop ev os closed rest
        (snd (parseFile ev os fn t) @ DeleteObject (BucketName os) fn #
          (case delete_reply ev (snd (parseFile ev os fn t) @ [DeleteObject (BucketName os) fn]) of
             None \<Rightarrow> []
           | Some e \<Rightarrow> [LoggerError ''failed to delete file'' fn e]))"
    by (rule Worker_loop_shipped)
next
  assume "fst (parseFile ev os fn t) = Returned (Some err)"
  then have pf: "parseFile ev os fn t = (Returned (Some err), snd (parseFile ev os fn t))"
    by (cases "parseFile ev os fn t") simp
  then show w: "Worker_loop ev os closed (fn # rest) t =
      (Returned (Some err), rest,
       snd (parseFile ev os fn t) @ [LoggerError ''failed to ship file'' fn err])"
    by (rule Worker_loop_failed)
  show "deleted_keys (snd (snd (Worker_loop ev os closed (fn # rest) t))) = deleted_keys t"
    unfolding w by (simp add: deleted_keys_ship_error parseFile_deleted_keys)
next
  let ?W = "Worker_loop ev os closed keys tr"
  assume o: "fst ?W = Returned None \<or> fst ?W = Blocked"
  have "?W = (fst ?W, fst (snd ?W), snd (snd ?W))"
    by simp
  from Worker_loop_drained [OF this o]
  show "fst (snd ?W) = []"
    and "deleted_keys (snd (snd ?W)) = deleted_keys tr @ keys"
    and "fetched_keys (snd (snd ?W)) = fetched_keys tr @ keys"
    by blast+
next
  let ?W = "Worker_loop ev os closed keys tr"
  assume "fst ?W = Returned (Some err')"
  then have "?W = (Returned (Some err'), fst (snd ?W), snd (snd ?W))"
    by (cases ?W) simp
  from Worker_loop_stopped_early [OF this]
  show "\<exists>done fn' t'. keys = done @ fn' # fst (snd ?W) \<and>
      fst (parseFile ev os fn' t') = Returned (Some err') \<and>
      deleted_keys (snd (snd ?W)) = deleted_keys tr @ done \<and>
      fetched_keys (snd (snd ?W)) = fetched_keys tr @ done @ [fn']"
    by blast
qed

lemma example_file_shipped:
  "parseFile (env_undeletable (Lines file_ok None) e) example_opts example_key tr =
     (Returned None,
      tr @ [NewBatch example_labels, GetObject ''logs'' example_key,
        BatchAdd [''date'' \<mapsto> ''2024-01-01'', ''time'' \<mapsto> ''00:00:00'', ''c-ip'' \<mapsto> ''1.2.3.4''],
        Printf (''Parsed '' @ example_key @ [CHR 0x0A]), BatchFlush,
        LoggerDebug ''shipped file'' example_key])"
  using example_labels_built
  by (simp add: parseFile_def Let_def env_undeletable_def file_ok_def HasPrefix_def
      parseDataLine_def index_at_def slice_from_def Fields_def asciiSpace_def example_opts_def)

lemma example_fetch_timeout:
  "parseFile (env_failing (ClientError ''timeout'')) example_opts example_key tr =
     (Returned (Some (Wrap (''failed to get object '' @ example_key @ '': '') (ClientError ''timeout''))),
      tr @ [NewBatch example_labels, GetObject ''logs'' example_key])"
  using example_labels_built
  by (simp add: parseFile_def Let_def env_failing_def example_opts_def)

theorem Worker_deletes_iff_shipped_witness:
  "Worker_loop (env_undeletable (Lines file_ok None) (ClientError ''AccessDenied''))
       example_opts True [example_key] [] =
     (Returned None, [],
      [NewBatch example_labels, GetObject ''logs'' example_key,
       BatchAdd [''date'' \<mapsto> ''2024-01-01'', ''time'' \<mapsto> ''00:00:00'', ''c-ip'' \<mapsto> ''1.2.3.4''],
       Printf (''Parsed '' @ example_key @ [CHR 0x0A]), BatchFlush,
       LoggerDebug ''shipped file'' example_key,
       DeleteObject ''logs'' example_key,
       LoggerError ''failed to delete file'' example_key (ClientError ''AccessDenied'')]) \<and>
   Worker_loop (env_failing (ClientError ''timeout'')) example_opts True
       [example_key, ''teamB/d9/a.gz''] [] =
     (Returned (Some (Wrap (''failed to get object '' @ example_key @ '': '') (ClientError ''timeout''))),
      [''teamB/d9/a.gz''],
      [NewBatch example_labels, GetObject ''logs'' example_key,
       LoggerError ''failed to ship file'' example_key
         (Wrap (''failed to get object '' @ example_key @ '': '') (ClientError ''timeout''))]) \<and>
   deleted_keys (snd (snd (Worker_loop (env_undeletable (Lines file_ok None) (ClientError ''AccessDenied''))
       example_opts True [example_key] []))) = [example_key] \<and>
   deleted_keys (snd (snd (Worker_loop (env_failing (ClientError ''timeout'')) example_opts True
       [example_key, ''teamB/d9/a.gz''] []))) = []"
proof -
  let ?A = "env_undeletable (Lines file_ok None) (ClientError ''AccessDenied'')"
  let ?B = "env_failing (ClientError ''timeout'')"
  let ?e = "Wrap (''failed to get object '' @ example_key @ '': '') (ClientError ''timeout'')"
  have a: "fst (parseFile ?A example_opts example_key []) = Returned None"
    by (simp only: example_file_shipped fst_conv)
  have b: "fst (parseFile ?B example_opts example_key []) = Returned (Some ?e)"
    by (simp only: example_fetch_timeout fst_conv)
  have d: "delete_reply ?A t = Some (ClientError ''AccessDenied'')" for t
    by (simp add: env_undeletable_def)
  have bucket: "BucketName example_opts = ''logs''"
    by (simp add: example_opts_def)
  from Worker_deletes_iff_shipped
    [where ev = ?A and os = example_opts and fn = example_key and t = "[]" and closed = True
       and rest = "[]"] a
  have "Worker_loop ?A example_opts True [example_key] [] =
      Worker_loop ?A example_opts True []
        (snd (parseFile ?A example_opts example_key []) @ DeleteObject (BucketName example_opts) example_key #
          (case delete_reply ?A (snd (parseFile ?A example_opts example_key []) @
              [DeleteObject (BucketName example_opts) example_key]) of
             None \<Rightarrow> []
           | Some e \<Rightarrow> [LoggerError ''failed to delete file'' example_key e]))"
    by blast
  then have A: "Worker_loop ?A example_opts True [example_key] [] =
      (Returned None, [],
       [NewBatch example_labels, GetObject ''logs'' example_key,
        BatchAdd [''date'' \<mapsto> ''2024-01-01'', ''time'' \<mapsto> ''00:00:00'', ''c-ip'' \<mapsto> ''1.2.3.4''],
        Printf (''Parsed '' @ example_key @ [CHR 0x0A]), BatchFlush,
        LoggerDebug ''shipped file'' example_key,
        DeleteObject ''logs'' example_key,
        LoggerError ''failed to delete file'' example_key (ClientError ''AccessDenied'')])"
    by (simp add: example_file_shipped d bucket)
  from Worker_deletes_iff_shipped
    [where ev = ?B and os = example_opts and fn = example_key and t = "[]" and closed = True
       and rest = "[''teamB/d9/a.gz'']" and err = ?e] b
  have "Worker_loop ?B example_opts True (example_key # [''teamB/d9/a.gz'']) [] =
      (Returned (Some ?e), [''teamB/d9/a.gz''],
       snd (parseFile ?B example_opts example_key []) @
         [LoggerError ''failed to ship file'' example_key ?e])"
    by blast
  then have B: "Worker_loop ?B example_opts True [example_key, ''teamB/d9/a.gz''] [] =
      (Returned (Some ?e), [''teamB/d9/a.gz''],
       [NewBatch example_labels, GetObject ''logs'' example_key,
        LoggerError ''failed to ship file'' example_key ?e])"
    by (simp add: example_fetch_timeout)
  have nil: "deleted_keys [] = []"
    by (simp add: deleted_keys_def)
  from Worker_deletes_iff_shipped
    [where ev = ?A and os = example_opts and closed = True and keys = "[example_key]" and tr = "[]"]
  have C: "deleted_keys (snd (snd (Worker_loop ?A example_opts True [example_key] []))) = [example_key]"
    unfolding A by (simp add: nil)
  from Worker_deletes_iff_shipped
    [where ev = ?B and os = example_opts and closed = True
       and keys = "[example_key, ''teamB/d9/a.gz'']" and tr = "[]" and err' = ?e]
  obtain done' fn' where "[example_key, ''teamB/d9/a.gz''] = done' @ fn' # [''teamB/d9/a.gz'']"
    and "deleted_keys (snd (snd (Worker_loop ?B example_opts True
        [example_key, ''teamB/d9/a.gz''] []))) = deleted_keys [] @ done'"
    unfolding B by auto
  then have D: "deleted_keys (snd (snd (Worker_loop ?B example_opts True
      [example_key, ''teamB/d9/a.gz''] []))) = []"
    by (cases done') (auto simp: nil)
  from A B C D show ?thesis
    by (intro conjI)
qed

end
